theory Spec2Isabelle
  imports
    Complex_Main
    "HOL-Library.Char_ord"
    "HOL-Library.List_Lexorder"
    "HOL-Library.Product_Lexorder"
begin

section \<open>Exceptions, log records and observable events\<close>

text \<open>
  A model of \<open>TimeChecker\<close>, the class of \<open>script.py\<close>.  A method becomes a function
  from what the method reads from the outside world (the clock, the answers of the
  time servers, the stop signal, the outcome of the system calls) and the state of
  the object to the new state and the trace of what the method did.

  The classes of Python exceptions the program can meet.  \<open>exception\<close> lists classes
  derived from \<open>Exception\<close>, the ones an operation raises by itself; \<open>base_exception\<close>
  adds the two classes outside \<open>Exception\<close> that signal delivery injects into the main
  thread.  A handler \<open>except Exception\<close> catches exactly the values \<open>Exception e\<close>.
\<close>

datatype exception =
  ValueError | RuntimeError | OSError | AttributeError | NTPException | TclError

datatype base_exception = Exception exception | KeyboardInterrupt | SystemExit

datatype level = DEBUG | INFO | WARNING | ERROR

text \<open>Why a warning cycle was started: the two values of the \<open>reason\<close> argument.\<close>

datatype reason = TimeSync | ScheduleLock

text \<open>
  A time of day is the pair (hour, minute); a \<open>datetime\<close> of the drift check is a
  count of microseconds, the resolution of Python's \<open>datetime\<close>.
\<close>

type_synonym tod = "nat \<times> nat"
type_synonym datetime = int

text \<open>The messages handed to the logger, one constructor for each call site.\<close>

datatype msg =
    InLockWindow string string string
  | CheckLockError exception
  | Traceback
  | TkFailed nat nat exception
  | AllTkFailed
  | NtpOk string
  | NtpFailed string exception
  | Locking
  | LockFailed exception
  | TimeLockCountdownStarted
  | CheckOk datetime
  | NetworkTime datetime
  | TimeDiff rat
  | ResyncedCancel
  | CountdownRemaining rat
  | NoNetworkTime
  | LocalTime datetime
  | CheckTimeError exception
  | TimeLockError exception
  | CountdownError exception
  | ProgramStarted
  | KeyboardInterruptRestart
  | MainLoopError exception

datatype dialog = WarningDialog nat reason | InfoDialog

datatype task = ShowCountdownWarning nat reason | TimeLockCountdown | CountdownCheck

text \<open>
  What a run of a method does to the outside world, in order: logger calls, sleeps,
  thread starts, the call of \<open>LockWorkStation\<close> and dialogs put on screen.  A
  \<open>Log\<close> event is the call of the logger, at any level; the logger of the program
  drops what is below \<open>INFO\<close>.
\<close>

datatype event =
    Log level msg
  | Sleep nat
  | Start task
  | LockWorkStation
  | Shown dialog

section \<open>Times of day as strings\<close>

text \<open>\<open>strftime("%H:%M")\<close>: two digits, a colon, two digits.\<close>

definition digit_char :: "nat \<Rightarrow> char" where
  "digit_char d = char_of (48 + d)"

definition digit_val :: "char \<Rightarrow> nat option" where
  "digit_val c =
     (let n = (of_char c :: nat) in if 48 \<le> n \<and> n \<le> 57 then Some (n - 48) else None)"

definition strftime_HM :: "tod \<Rightarrow> string" where
  "strftime_HM t =
     (case t of (h, m) \<Rightarrow>
        [digit_char (h div 10), digit_char (h mod 10), CHR '':'',
         digit_char (m div 10), digit_char (m mod 10)])"

text \<open>
  \<open>strptime(s, "%H:%M")\<close> matches the regular expression
  \<^verbatim>\<open>(?P<H>2[0-3]|[0-1]\d|\d):(?P<M>[0-5]\d|\d)\<close> at the start of \<open>s\<close> and then
  demands that nothing is left.  Each \<open>match_\<close> function returns the ways its part
  of the expression can match a prefix, in the order the alternatives are tried,
  together with the rest of the input.  So \<open>7:05\<close> and \<open>7:5\<close> parse, like
  \<open>07:05\<close>, and \<open>24:00\<close> and \<open>12:60\<close> raise \<open>ValueError\<close>.  A string is a
  list of bytes here and the digits are the ASCII digits; Python's pattern accepts the
  other decimal digits of Unicode as well.
\<close>

fun match_H :: "string \<Rightarrow> (nat \<times> string) list" where
  "match_H [] = []"
| "match_H [c] = (case digit_val c of Some d \<Rightarrow> [(d, [])] | None \<Rightarrow> [])"
| "match_H (c # c' # cs) =
     (case digit_val c of
        None \<Rightarrow> []
      | Some d \<Rightarrow>
          (case digit_val c' of
             None \<Rightarrow> [(d, c' # cs)]
           | Some d' \<Rightarrow>
               (if d = 2 \<and> d' \<le> 3 then [(10 * d + d', cs)] else []) @
               (if d \<le> 1 then [(10 * d + d', cs)] else []) @
               [(d, c' # cs)]))"

fun match_colon :: "string \<Rightarrow> string list" where
  "match_colon [] = []"
| "match_colon (c # cs) = (if c = CHR '':'' then [cs] else [])"

fun match_M :: "string \<Rightarrow> (nat \<times> string) list" where
  "match_M [] = []"
| "match_M [c] = (case digit_val c of Some d \<Rightarrow> [(d, [])] | None \<Rightarrow> [])"
| "match_M (c # c' # cs) =
     (case digit_val c of
        None \<Rightarrow> []
      | Some d \<Rightarrow>
          (case digit_val c' of
             None \<Rightarrow> [(d, c' # cs)]
           | Some d' \<Rightarrow>
               (if d \<le> 5 then [(10 * d + d', cs)] else []) @ [(d, c' # cs)]))"

definition regex_HM :: "string \<Rightarrow> (tod \<times> string) list" where
  "regex_HM s =
     concat (map (\<lambda>(h, r1).
       concat (map (\<lambda>r2.
         map (\<lambda>(m, r3). ((h, m), r3)) (match_M r2)) (match_colon r1))) (match_H s))"

definition strptime_HM :: "string \<Rightarrow> exception + tod" where
  "strptime_HM s =
     (case regex_HM s of
        [] \<Rightarrow> Inl ValueError
      | (t, rest) # _ \<Rightarrow> if rest = [] then Inr t else Inl ValueError)"

section \<open>The checker object\<close>

record TimeChecker =
  warning_active :: bool
  ntp_servers :: "string list"
  lock_times :: "(string \<times> string) list"

definition init :: TimeChecker where
  "init = \<lparr> warning_active = False,
            ntp_servers = [''pool.ntp.org'', ''time.windows.com'', ''time.apple.com'',
                           ''time.google.com''],
            lock_times = [(''11:00'', ''13:00''), (''17:00'', ''19:00''),
                          (''21:00'', ''23:59''), (''00:00'', ''07:00'')] \<rparr>"

text \<open>
  A computation returns the events it caused and either the exception it raised
  (\<open>Inl\<close>) or its value (\<open>Inr\<close>).  \<open>catch_Exception\<close> is the statement
  \<^verbatim>\<open>try: body  except Exception as e: handler(e)\<close>.
\<close>

type_synonym 'a comp = "event list \<times> (base_exception + 'a)"

definition catch_Exception :: "'a comp \<Rightarrow> (exception \<Rightarrow> 'a comp) \<Rightarrow> 'a comp" where
  "catch_Exception body handler =
     (case body of
        (evs, Inl (Exception e)) \<Rightarrow> (case handler e of (evs', r) \<Rightarrow> (evs @ evs', r))
      | _ \<Rightarrow> body)"

section \<open>Schedule evaluator\<close>

text \<open>
  The loop of \<open>is_time_to_lock\<close> over \<open>self.lock_times\<close>.  \<open>cur\<close> is the string
  \<open>current_time_str\<close>.  The three \<open>strptime\<close> calls come first and any of them may
  raise; whether the window wraps is decided on the strings, membership on the
  parsed times.
\<close>

fun lock_loop :: "string \<Rightarrow> (string \<times> string) list \<Rightarrow> bool comp" where
  "lock_loop cur [] = ([], Inr False)"
| "lock_loop cur ((start_time, end_time) # ws) =
     (case strptime_HM cur of
        Inl x \<Rightarrow> ([], Inl (Exception x))
      | Inr current \<Rightarrow>
     (case strptime_HM start_time of
        Inl x \<Rightarrow> ([], Inl (Exception x))
      | Inr start \<Rightarrow>
     (case strptime_HM end_time of
        Inl x \<Rightarrow> ([], Inl (Exception x))
      | Inr end \<Rightarrow>
          if start_time > end_time then
            (if current \<ge> start \<or> current \<le> end
             then ([Log INFO (InLockWindow cur start_time end_time)], Inr True)
             else lock_loop cur ws)
          else
            (if start \<le> current \<and> current \<le> end
             then ([Log INFO (InLockWindow cur start_time end_time)], Inr True)
             else lock_loop cur ws))))"

text \<open>\<open>now\<close> is the hour and minute of \<open>datetime.now()\<close>.\<close>

definition is_time_to_lock :: "TimeChecker \<Rightarrow> tod \<Rightarrow> bool comp" where
  "is_time_to_lock self now =
     catch_Exception
       (lock_loop (strftime_HM now) (lock_times self))
       (\<lambda>e. ([Log ERROR (CheckLockError e), Log ERROR Traceback], Inr False))"

section \<open>Time source client\<close>

text \<open>
  What the network answers in one call of \<open>get_network_time\<close>: for a server and a
  timeout in seconds, either the exception raised in the \<open>try\<close> block or the
  \<open>datetime\<close> built from the response.  In \<open>ntp_loop\<close> the block returns
  \<open>Some\<close> of that datetime, and the handler ends in \<open>continue\<close>, written as the
  value \<open>None\<close> that sends the loop to the next server.
\<close>

type_synonym ntp_env = "string \<Rightarrow> nat \<Rightarrow> exception + datetime"

fun ntp_loop :: "ntp_env \<Rightarrow> string list \<Rightarrow> datetime option comp" where
  "ntp_loop net [] = ([], Inr None)"
| "ntp_loop net (server # servers) =
     (case catch_Exception
             (case net server 5 of
                Inl x \<Rightarrow> ([], Inl (Exception x))
              | Inr tx_time \<Rightarrow> ([Log DEBUG (NtpOk server)], Inr (Some tx_time)))
             (\<lambda>e. ([Log WARNING (NtpFailed server e)], Inr None)) of
        (evs, Inr None) \<Rightarrow> (case ntp_loop net servers of (evs', r) \<Rightarrow> (evs @ evs', r))
      | returned \<Rightarrow> returned)"

definition get_network_time :: "TimeChecker \<Rightarrow> ntp_env \<Rightarrow> datetime option comp" where
  "get_network_time self net = ntp_loop net (ntp_servers self)"

section \<open>Lock action and dialogs\<close>

text \<open>
  \<open>lock_result\<close> is what the call \<open>ctypes.windll.user32.LockWorkStation()\<close> does:
  \<open>None\<close> when it returns, \<open>Some e\<close> when it raises \<open>e\<close>.  The flag is reset
  after the call, inside the \<open>try\<close> block.
\<close>

definition lock_windows :: "exception option \<Rightarrow> TimeChecker \<Rightarrow> TimeChecker \<times> event list" where
  "lock_windows lock_result self =
     (case lock_result of
        None \<Rightarrow> (self\<lparr>warning_active := False\<rparr>, [Log INFO Locking, LockWorkStation])
      | Some e \<Rightarrow>
          (self, [Log INFO Locking, LockWorkStation,
                  Log ERROR (LockFailed e), Log ERROR Traceback]))"

text \<open>
  One attempt of \<open>safe_tk_operation\<close> creates a Tk root, runs the operation (a
  message box) and destroys the root.  It ends without an exception after the box
  was shown, or raises before the box appears, or raises after it was shown.
\<close>

datatype tk_outcome = TkOk | TkFail exception | TkShownThenFail exception

type_synonym tk_env = "nat \<Rightarrow> tk_outcome"

definition max_retries :: nat where
  "max_retries = 3"

definition tk_failed :: "nat \<Rightarrow> exception \<Rightarrow> event list" where
  "tk_failed attempt e =
     Log ERROR (TkFailed (attempt + 1) max_retries e) #
     (if attempt = max_retries - 1 then [Log ERROR AllTkFailed] else []) @ [Sleep 1]"

fun safe_tk_loop :: "dialog \<Rightarrow> tk_env \<Rightarrow> nat list \<Rightarrow> event list" where
  "safe_tk_loop d tk [] = []"
| "safe_tk_loop d tk (attempt # attempts) =
     (case tk attempt of
        TkOk \<Rightarrow> [Shown d]
      | TkFail e \<Rightarrow> tk_failed attempt e @ safe_tk_loop d tk attempts
      | TkShownThenFail e \<Rightarrow> Shown d # tk_failed attempt e @ safe_tk_loop d tk attempts)"

definition safe_tk_operation :: "dialog \<Rightarrow> tk_env \<Rightarrow> event list" where
  "safe_tk_operation d tk = safe_tk_loop d tk [0..<max_retries]"

definition show_countdown_warning :: "nat \<Rightarrow> reason \<Rightarrow> tk_env \<Rightarrow> event list" where
  "show_countdown_warning remaining_minutes why tk =
     safe_tk_operation (WarningDialog remaining_minutes why) tk"

definition show_normal_message :: "tk_env \<Rightarrow> event list" where
  "show_normal_message tk = safe_tk_operation InfoDialog tk"

section \<open>Countdown tasks\<close>

text \<open>How a block of statements ends.\<close>

datatype flow = Next | Continue | Return | Raised base_exception

text \<open>
  \<open>stop\<close> is the value of \<open>self.stop_event.is_set()\<close> after the sleep.  The task
  runs in a thread of its own, where no signal handler runs, so its sleep returns;
  \<open>lock_windows\<close> handles the failure of the lock call itself.  Nothing is left
  for the handler of the \<open>try\<close> block around the three statements to catch.
\<close>

definition time_lock_countdown ::
    "bool \<Rightarrow> exception option \<Rightarrow> TimeChecker \<Rightarrow> TimeChecker \<times> event list" where
  "time_lock_countdown stop lock_result self =
     (if \<not> stop then
        (case lock_windows lock_result self of
           (self', evs) \<Rightarrow> (self', [Log INFO TimeLockCountdownStarted, Sleep 60] @ evs))
      else (self, [Log INFO TimeLockCountdownStarted, Sleep 60]))"

text \<open>
  The difference of two datetimes in seconds and the drift in minutes.  The source
  computes them in floating point from a whole number of microseconds; the model
  computes the same quotients exactly.
\<close>

definition total_seconds :: "int \<Rightarrow> rat" where
  "total_seconds d = of_int d / 1000000"

definition time_diff :: "datetime \<Rightarrow> datetime \<Rightarrow> rat" where
  "time_diff network_time local_time = \<bar>total_seconds (network_time - local_time) / 60\<bar>"

text \<open>
  What one round of a polling loop reads: the stop signal at the head of the
  round, the answers of the time servers, and the local clock.
\<close>

record sample =
  stop_set :: bool
  ntp :: ntp_env
  local_time :: datetime

text \<open>
  The block under \<open>with suppress(Exception)\<close> in one round of \<open>countdown_check\<close>;
  \<open>Return\<close> is the \<open>return\<close> after a resync, \<open>Next\<close> the end of the block, also
  when an exception was suppressed.
\<close>

definition countdown_sample ::
    "sample \<Rightarrow> tk_env \<Rightarrow> TimeChecker \<Rightarrow> TimeChecker \<times> event list \<times> flow" where
  "countdown_sample smp tk self =
     (case get_network_time self (ntp smp) of
        (evs, Inl (Exception e)) \<Rightarrow> (self, evs, Next)
      | (evs, Inl x) \<Rightarrow> (self, evs, Raised x)
      | (evs, Inr None) \<Rightarrow> (self, evs, Next)
      | (evs, Inr (Some network_time)) \<Rightarrow>
          (let diff = time_diff network_time (local_time smp);
               logs = [Log INFO (CheckOk (local_time smp)), Log INFO (NetworkTime network_time),
                       Log INFO (TimeDiff diff)]
           in if diff \<le> 5
              then (self\<lparr>warning_active := False\<rparr>,
                    evs @ logs @ [Log INFO ResyncedCancel] @ show_normal_message tk, Return)
              else (self, evs @ logs, Next)))"

fun countdown_loop ::
    "(nat \<Rightarrow> sample) \<Rightarrow> tk_env \<Rightarrow> nat list \<Rightarrow> TimeChecker \<Rightarrow>
       TimeChecker \<times> event list \<times> flow" where
  "countdown_loop samples tk [] self = (self, [], Next)"
| "countdown_loop samples tk (i # is) self =
     (if stop_set (samples i) then (self, [], Return)
      else
        (case countdown_sample (samples i) tk self of
           (self1, evs, Next) \<Rightarrow>
             (case countdown_loop samples tk is self1 of
                (self2, evs', r) \<Rightarrow>
                  (self2,
                   evs @ [Log INFO (CountdownRemaining (5 - (of_nat i + 1) * 10 / 60)), Sleep 10]
                       @ evs', r))
         | ended \<Rightarrow> ended))"

record countdown_env =
  samples :: "nat \<Rightarrow> sample"
  tk_dialog :: tk_env
  stop_at_end :: bool
  lock_result :: "exception option"

definition total_checks :: nat where
  "total_checks = 30"

text \<open>
  \<open>countdown_check\<close> returns the exception that leaves the task, if any: the outer
  handler catches the class \<open>Exception\<close> only.
\<close>

definition countdown_check ::
    "countdown_env \<Rightarrow> TimeChecker \<Rightarrow> TimeChecker \<times> event list \<times> base_exception option" where
  "countdown_check env self =
     (case countdown_loop (samples env) (tk_dialog env) [0..<total_checks] self of
        (self1, evs, Raised (Exception e)) \<Rightarrow>
          (self1, evs @ [Log ERROR (CountdownError e), Log ERROR Traceback], None)
      | (self1, evs, Raised x) \<Rightarrow> (self1, evs, Some x)
      | (self1, evs, Next) \<Rightarrow>
          (if \<not> stop_at_end env then
             (case lock_windows (lock_result env) self1 of
                (self2, evs') \<Rightarrow> (self2, evs @ evs', None))
           else (self1, evs, None))
      | (self1, evs, _) \<Rightarrow> (self1, evs, None))"

section \<open>Main loop\<close>

text \<open>
  What one cycle of \<open>check_time\<close> reads besides a \<open>sample\<close>: the wall clock of
  the schedule check, whether each \<open>Thread(...).start()\<close> raises, and whether a
  sleep of the main thread is cut short by an exception.
\<close>

record cycle_env = sample +
  now_hm :: tod
  start_dialog :: "exception option"
  start_countdown :: "exception option"
  sleep_60 :: "base_exception option"
  sleep_300 :: "base_exception option"

text \<open>
  The four statements every trigger path runs once its guard has passed: set the
  flag, start the dialog thread, create and start the countdown thread.  A
  \<open>Start\<close> event records a thread that did start.
\<close>

definition trigger ::
    "nat \<Rightarrow> reason \<Rightarrow> task \<Rightarrow> 'a cycle_env_scheme \<Rightarrow> TimeChecker \<Rightarrow>
       TimeChecker \<times> event list \<times> flow" where
  "trigger minutes why countdown env self =
     (let self1 = self\<lparr>warning_active := True\<rparr> in
      case start_dialog env of
        Some e \<Rightarrow> (self1, [], Raised (Exception e))
      | None \<Rightarrow>
          (case start_countdown env of
             Some e \<Rightarrow>
               (self1, [Start (ShowCountdownWarning minutes why)], Raised (Exception e))
           | None \<Rightarrow>
               (self1, [Start (ShowCountdownWarning minutes why), Start countdown], Next)))"

text \<open>The \<open>try\<close> block of one cycle.\<close>

definition cycle_body ::
    "'a cycle_env_scheme \<Rightarrow> TimeChecker \<Rightarrow> TimeChecker \<times> event list \<times> flow" where
  "cycle_body env self =
     (case is_time_to_lock self (now_hm env) of
        (evs, Inl x) \<Rightarrow> (self, evs, Raised x)
      | (evs, Inr True) \<Rightarrow>
          (case (if \<not> warning_active self
                 then trigger 1 ScheduleLock TimeLockCountdown env self
                 else (self, [], Next)) of
             (self1, evs1, Raised x) \<Rightarrow> (self1, evs @ evs1, Raised x)
           | (self1, evs1, _) \<Rightarrow>
               (case sleep_60 env of
                  Some x \<Rightarrow> (self1, evs @ evs1 @ [Sleep 60], Raised x)
                | None \<Rightarrow> (self1, evs @ evs1 @ [Sleep 60], Continue)))
      | (evs, Inr False) \<Rightarrow>
          (case get_network_time self (ntp env) of
             (evs1, Inl x) \<Rightarrow> (self, evs @ evs1, Raised x)
           | (evs1, Inr None) \<Rightarrow>
               (if \<not> warning_active self then
                  (case trigger 5 TimeSync CountdownCheck env self of
                     (self1, evs2, r) \<Rightarrow>
                       (self1, evs @ evs1 @ [Log WARNING NoNetworkTime] @ evs2, r))
                else (self, evs @ evs1 @ [Log WARNING NoNetworkTime], Next))
           | (evs1, Inr (Some network_time)) \<Rightarrow>
               (let diff = time_diff network_time (local_time env);
                    logs = [Log INFO (LocalTime (local_time env)),
                            Log INFO (NetworkTime network_time), Log INFO (TimeDiff diff)]
                in if diff > 5 \<and> \<not> warning_active self then
                     (case trigger 5 TimeSync CountdownCheck env self of
                        (self1, evs2, r) \<Rightarrow> (self1, evs @ evs1 @ logs @ evs2, r))
                   else (self, evs @ evs1 @ logs, Next))))"

text \<open>
  One pass of the \<open>while\<close> loop of \<open>check_time\<close> after its head: the \<open>try\<close> block,
  the handler for \<open>Exception\<close>, and the sleep of 300 seconds that follows both
  unless the block ended in \<open>continue\<close>.
\<close>

definition sleep_after ::
    "'a cycle_env_scheme \<Rightarrow> TimeChecker \<Rightarrow> event list \<Rightarrow> TimeChecker \<times> event list \<times> flow" where
  "sleep_after env self evs =
     (case sleep_300 env of
        Some x \<Rightarrow> (self, evs @ [Sleep 300], Raised x)
      | None \<Rightarrow> (self, evs @ [Sleep 300], Next))"

definition cycle ::
    "'a cycle_env_scheme \<Rightarrow> TimeChecker \<Rightarrow> TimeChecker \<times> event list \<times> flow" where
  "cycle env self =
     (case cycle_body env self of
        (self1, evs, Continue) \<Rightarrow> (self1, evs, Continue)
      | (self1, evs, Raised (Exception e)) \<Rightarrow>
          sleep_after env self1 (evs @ [Log ERROR (CheckTimeError e), Log ERROR Traceback])
      | (self1, evs, Raised x) \<Rightarrow> (self1, evs, Raised x)
      | (self1, evs, _) \<Rightarrow> sleep_after env self1 evs)"

text \<open>
  \<open>check_time\<close> on the environments of its successive cycles.  The loop has no
  bound of its own: the result \<open>None\<close> says that it is still running when the
  given environments are used up, \<open>Some Return\<close> that it saw the stop signal,
  \<open>Some (Raised x)\<close> that \<open>x\<close> left it.
\<close>

fun check_time ::
    "'a cycle_env_scheme list \<Rightarrow> TimeChecker \<Rightarrow> TimeChecker \<times> event list \<times> flow option" where
  "check_time [] self = (self, [], None)"
| "check_time (env # envs) self =
     (if stop_set env then (self, [], Some Return)
      else
        (case cycle env self of
           (self1, evs, Raised x) \<Rightarrow> (self1, evs, Some (Raised x))
         | (self1, evs, _) \<Rightarrow>
             (case check_time envs self1 of (self2, evs', r) \<Rightarrow> (self2, evs @ evs', r))))"

text \<open>
  \<open>run\<close>: each element of the list is one call of \<open>check_time\<close>, with the
  environments of its cycles and what the sleep of 10 seconds in the handler does.
  \<open>None\<close> again says that the program is still running.
\<close>

record run_env =
  cycles :: "cycle_env list"
  sleep_10 :: "base_exception option"

fun run_loop ::
    "run_env list \<Rightarrow> TimeChecker \<Rightarrow> TimeChecker \<times> event list \<times> base_exception option" where
  "run_loop [] self = (self, [], None)"
| "run_loop (call # calls) self =
     (case check_time (cycles call) self of
        (self1, evs, None) \<Rightarrow> (self1, evs, None)
      | (self1, evs, Some (Raised KeyboardInterrupt)) \<Rightarrow>
          (case run_loop calls self1 of
             (self2, evs', r) \<Rightarrow> (self2, evs @ [Log INFO KeyboardInterruptRestart] @ evs', r))
      | (self1, evs, Some (Raised (Exception e))) \<Rightarrow>
          (case sleep_10 call of
             Some x \<Rightarrow>
               (self1, evs @ [Log ERROR (MainLoopError e), Log ERROR Traceback, Sleep 10], Some x)
           | None \<Rightarrow>
               (case run_loop calls self1 of
                  (self2, evs', r) \<Rightarrow>
                    (self2,
                     evs @ [Log ERROR (MainLoopError e), Log ERROR Traceback, Sleep 10] @ evs',
                     r)))
      | (self1, evs, Some (Raised x)) \<Rightarrow> (self1, evs, Some x)
      | (self1, evs, Some _) \<Rightarrow>
          (case run_loop calls self1 of (self2, evs', r) \<Rightarrow> (self2, evs @ evs', r)))"

definition run ::
    "run_env list \<Rightarrow> TimeChecker \<Rightarrow> TimeChecker \<times> event list \<times> base_exception option" where
  "run calls self =
     (case run_loop calls self of (self1, evs, r) \<Rightarrow> (self1, Log INFO ProgramStarted # evs, r))"

section \<open>Notions of the specification\<close>

text \<open>A time of day the clock can show, and a window written in \<open>HH:MM\<close> form.\<close>

definition valid_tod :: "tod \<Rightarrow> bool" where
  "valid_tod t = (fst t < 24 \<and> snd t < 60)"

definition window_strings :: "tod \<times> tod \<Rightarrow> string \<times> string" where
  "window_strings w = (strftime_HM (fst w), strftime_HM (snd w))"

text \<open>
  The specification's reading of a window: from start to end, both included, when
  start is not after end; otherwise from start through midnight to end.
\<close>

definition spec_inside_window :: "tod \<Rightarrow> tod \<times> tod \<Rightarrow> bool" where
  "spec_inside_window t w =
     (case w of (s, e) \<Rightarrow> if s \<le> e then s \<le> t \<and> t \<le> e else t \<ge> s \<or> t \<le> e)"

text \<open>The sleeps, in seconds, and the threads started, in the order of a trace.\<close>

fun sleeps :: "event list \<Rightarrow> nat list" where
  "sleeps [] = []"
| "sleeps (Sleep n # evs) = n # sleeps evs"
| "sleeps (_ # evs) = sleeps evs"

fun started :: "event list \<Rightarrow> task list" where
  "started [] = []"
| "started (Start t # evs) = t # started evs"
| "started (_ # evs) = started evs"

text \<open>
  A round of the drift countdown shows a resync when the time source answers and
  the answer is within 5 minutes of the local clock.
\<close>

definition sample_resynced :: "TimeChecker \<Rightarrow> sample \<Rightarrow> bool" where
  "sample_resynced self smp =
     (case snd (get_network_time self (ntp smp)) of
        Inr (Some network_time) \<Rightarrow> time_diff network_time (local_time smp) \<le> 5
      | _ \<Rightarrow> False)"

text \<open>An attempt of the Tk wrapper that gets as far as putting the box on screen.\<close>

fun shows_box :: "tk_outcome \<Rightarrow> bool" where
  "shows_box (TkFail e) = False"
| "shows_box _ = True"

text \<open>
  Two states of the network for examples: only the third server answers, and no
  server answers.
\<close>

definition third_answers :: ntp_env where
  "third_answers server timeout =
     (if server = ''time.apple.com'' \<and> timeout = 5 then Inr 1700000000000000
      else Inl NTPException)"

definition no_answer :: ntp_env where
  "no_answer server timeout = Inl NTPException"

fun is_log :: "event \<Rightarrow> bool" where
  "is_log (Log l m) = True"
| "is_log _ = False"

text \<open>
  Rounds of the drift countdown for examples: a round in which no server answers,
  one in which the answer is 10 minutes ahead of the local clock, and one in which it
  is 1 minute behind.
\<close>

definition failing_sample :: sample where
  "failing_sample = \<lparr> stop_set = False, ntp = no_answer, local_time = 1700000000000000 \<rparr>"

definition drifting_sample :: sample where
  "drifting_sample =
     \<lparr> stop_set = False, ntp = third_answers, local_time = 1700000000000000 - 600000000 \<rparr>"

definition synced_sample :: sample where
  "synced_sample =
     \<lparr> stop_set = False, ntp = third_answers, local_time = 1700000000000000 + 60000000 \<rparr>"

text \<open>
  Countdowns for examples: one that never sees a resync, one that sees it in its
  third round, and the latter on a host where Tk cannot open a window.
\<close>

definition expiry_env :: countdown_env where
  "expiry_env =
     \<lparr> samples = (\<lambda>i. if even i then failing_sample else drifting_sample),
       tk_dialog = (\<lambda>a. TkOk), stop_at_end = False, lock_result = None \<rparr>"

definition resync_env :: countdown_env where
  "resync_env =
     \<lparr> samples = (\<lambda>i. if i < 2 then drifting_sample else synced_sample),
       tk_dialog = (\<lambda>a. TkOk), stop_at_end = False, lock_result = None \<rparr>"

definition resync_no_tk_env :: countdown_env where
  "resync_no_tk_env =
     \<lparr> samples = (\<lambda>i. if i < 2 then drifting_sample else synced_sample),
       tk_dialog = (\<lambda>a. TkFail TclError), stop_at_end = False, lock_result = None \<rparr>"

text \<open>The countdown tasks among the threads started.\<close>

fun is_countdown :: "task \<Rightarrow> bool" where
  "is_countdown (ShowCountdownWarning n why) = False"
| "is_countdown _ = True"

text \<open>
  The drift condition of the main loop on the answer \<open>r\<close> of the time source:
  no trusted time, or one that is more than 5 minutes from the local clock.
\<close>

definition drift_exceeded :: "datetime option \<Rightarrow> datetime \<Rightarrow> bool" where
  "drift_exceeded r local = (case r of None \<Rightarrow> True | Some network_time \<Rightarrow> time_diff network_time local > 5)"

text \<open>
  Cycles of the main loop for examples, all with the stop signal unset: noon, inside
  the first lock window; eight o'clock with the trusted time 10 minutes ahead of the
  local clock; the same with the trusted time 3 minutes ahead; noon on a host that
  cannot start a thread; eight o'clock in step with the trusted time, with an
  \<open>OSError\<close> raised in the sleep that ends the cycle.  The last one is a cycle that
  finds the stop signal set.
\<close>

definition window_cycle :: cycle_env where
  "window_cycle =
     \<lparr> stop_set = False, ntp = no_answer, local_time = 1700000000000000, now_hm = (12, 0),
       start_dialog = None, start_countdown = None, sleep_60 = None, sleep_300 = None \<rparr>"

definition drift_cycle :: cycle_env where
  "drift_cycle =
     \<lparr> stop_set = False, ntp = third_answers, local_time = 1700000000000000 - 600000000,
       now_hm = (8, 0),
       start_dialog = None, start_countdown = None, sleep_60 = None, sleep_300 = None \<rparr>"

definition near_cycle :: cycle_env where
  "near_cycle =
     \<lparr> stop_set = False, ntp = third_answers, local_time = 1700000000000000 - 180000000,
       now_hm = (8, 0),
       start_dialog = None, start_countdown = None, sleep_60 = None, sleep_300 = None \<rparr>"

definition no_thread_cycle :: cycle_env where
  "no_thread_cycle =
     \<lparr> stop_set = False, ntp = no_answer, local_time = 1700000000000000, now_hm = (12, 0),
       start_dialog = Some RuntimeError, start_countdown = None, sleep_60 = None,
       sleep_300 = None \<rparr>"

definition broken_sleep_cycle :: cycle_env where
  "broken_sleep_cycle =
     \<lparr> stop_set = False, ntp = third_answers, local_time = 1700000000000000, now_hm = (8, 0),
       start_dialog = None, start_countdown = None, sleep_60 = None,
       sleep_300 = Some (Exception OSError) \<rparr>"

definition stop_cycle :: cycle_env where
  "stop_cycle =
     \<lparr> stop_set = True, ntp = no_answer, local_time = 1700000000000000, now_hm = (8, 0),
       start_dialog = None, start_countdown = None, sleep_60 = None, sleep_300 = None \<rparr>"

text \<open>
  Calls of \<open>check_time\<close> for examples: one whose first cycle ends in the broken
  sleep, and one that finds the stop signal set at once.
\<close>

definition broken_call :: run_env where
  "broken_call = \<lparr> cycles = [broken_sleep_cycle], sleep_10 = None \<rparr>"

definition stop_call :: run_env where
  "stop_call = \<lparr> cycles = [stop_cycle], sleep_10 = None \<rparr>"

section \<open>Time strings\<close>

lemma digit_val_digit_char: "d < 10 \<Longrightarrow> digit_val (digit_char d) = Some d"
  by (simp add: digit_val_def digit_char_def)

lemma digit_char_less:
  "d < 10 \<Longrightarrow> d' < 10 \<Longrightarrow> digit_char d < digit_char d' \<longleftrightarrow> d < d'"
  by (simp add: digit_char_def less_char_def)

lemma digit_char_eq:
  "d < 10 \<Longrightarrow> d' < 10 \<Longrightarrow> digit_char d = digit_char d' \<longleftrightarrow> d = d'"
  by (metis digit_val_digit_char option.inject)

lemma two_digits_less:
  fixes a b :: nat
  shows "a < b \<longleftrightarrow> a div 10 < b div 10 \<or> a div 10 = b div 10 \<and> a mod 10 < b mod 10"
proof -
  have a: "a = 10 * (a div 10) + a mod 10" by simp
  have b: "b = 10 * (b div 10) + b mod 10" by simp
  have "a mod 10 < 10" "b mod 10 < 10" by simp_all
  then show ?thesis using a b by linarith
qed

lemma two_digits_eq:
  fixes a b :: nat
  shows "a = b \<longleftrightarrow> a div 10 = b div 10 \<and> a mod 10 = b mod 10"
  by (metis div_mult_mod_eq)

lemma match_M_strftime:
  assumes "m < 60"
  shows "match_M [digit_char (m div 10), digit_char (m mod 10)] =
           [(m, []), (m div 10, [digit_char (m mod 10)])]"
proof -
  have "m div 10 < 10" "m mod 10 < 10" "m div 10 \<le> 5" using assms by simp_all
  then show ?thesis by (simp add: digit_val_digit_char)
qed

lemma match_H_strftime:
  assumes "h < 24"
  shows "\<exists>alts. match_H (digit_char (h div 10) # digit_char (h mod 10) # cs) =
           (h, cs) # alts"
proof -
  have d: "h div 10 < 10" "h mod 10 < 10" using assms by simp_all
  have hm: "10 * (h div 10) + h mod 10 = h" by simp
  have "h div 10 = 2 \<and> h mod 10 \<le> 3 \<or> h div 10 \<le> 1" using assms by presburger
  then show ?thesis
  proof
    assume a: "h div 10 = 2 \<and> h mod 10 \<le> 3"
    with hm have "20 + h mod 10 = h" by simp
    with a d show ?thesis by (simp add: digit_val_digit_char)
  next
    assume a: "h div 10 \<le> 1"
    with d hm show ?thesis by (simp add: digit_val_digit_char)
  qed
qed

text \<open>Parsing what \<open>strftime\<close> wrote gives the time back.\<close>

lemma strptime_strftime: "valid_tod t \<Longrightarrow> strptime_HM (strftime_HM t) = Inr t"
proof -
  assume v: "valid_tod t"
  obtain h m where t: "t = (h, m)" by (cases t)
  from v t have h: "h < 24" and m: "m < 60" by (simp_all add: valid_tod_def)
  obtain alts where H: "match_H (strftime_HM (h, m)) =
      (h, [CHR '':'', digit_char (m div 10), digit_char (m mod 10)]) # alts"
    using match_H_strftime [OF h] by (auto simp add: strftime_HM_def)
  show ?thesis
    by (simp add: strptime_HM_def regex_HM_def H match_M_strftime [OF m] t del: match_M.simps)
qed

text \<open>On strings in \<open>HH:MM\<close> form the order of the strings is the order of the times.\<close>

lemma strftime_less:
  assumes "valid_tod s" "valid_tod e"
  shows "strftime_HM s < strftime_HM e \<longleftrightarrow> s < e"
proof -
  obtain h m where s: "s = (h, m)" by (cases s)
  obtain h' m' where e: "e = (h', m')" by (cases e)
  from assms s e have b: "h < 24" "m < 60" "h' < 24" "m' < 60" by (simp_all add: valid_tod_def)
  have hd: "h div 10 < 10" "h mod 10 < 10" "m div 10 < 10" "m mod 10 < 10"
     "h' div 10 < 10" "h' mod 10 < 10" "m' div 10 < 10" "m' mod 10 < 10"
    using b by simp_all
  have "strftime_HM s < strftime_HM e \<longleftrightarrow>
        h div 10 < h' div 10 \<or> h div 10 = h' div 10 \<and>
         (h mod 10 < h' mod 10 \<or> h mod 10 = h' mod 10 \<and>
           (m div 10 < m' div 10 \<or> m div 10 = m' div 10 \<and> m mod 10 < m' mod 10))"
    by (simp add: s e strftime_HM_def digit_char_less hd digit_char_eq)
  also have "\<dots> \<longleftrightarrow> h < h' \<or> h = h' \<and> m < m'"
    using two_digits_less [of h h'] two_digits_less [of m m'] two_digits_eq [of h h'] by blast
  also have "\<dots> \<longleftrightarrow> s < e"
    by (auto simp add: s e less_prod_def)
  finally show ?thesis .
qed

section \<open>Schedule evaluator: results\<close>

lemma digit_char_simps:
  "digit_char 0 = CHR ''0''" "digit_char 1 = CHR ''1''" "digit_char 2 = CHR ''2''"
  "digit_char 3 = CHR ''3''" "digit_char 4 = CHR ''4''" "digit_char 5 = CHR ''5''"
  "digit_char 6 = CHR ''6''" "digit_char 7 = CHR ''7''" "digit_char 8 = CHR ''8''"
  "digit_char 9 = CHR ''9''" "digit_char (Suc 0) = CHR ''1''"
  by code_simp+

lemma strptime_raises: "strptime_HM s = Inl x \<Longrightarrow> x = ValueError"
  by (auto simp add: strptime_HM_def split: list.splits prod.splits if_splits)

lemma lock_loop_raises:
  "lock_loop cur ws = (evs, Inl x) \<Longrightarrow> evs = [] \<and> x = Exception ValueError"
  by (induction cur ws rule: lock_loop.induct)
     (auto split: sum.splits if_splits dest: strptime_raises)

lemma lock_loop_append:
  "lock_loop cur pre = ([], Inr False) \<Longrightarrow> lock_loop cur (pre @ ws) = lock_loop cur ws"
  by (induction cur pre rule: lock_loop.induct)
     (auto split: sum.splits if_splits)

lemma lock_loop_malformed:
  assumes "isl (strptime_HM s) \<or> isl (strptime_HM e)"
  shows "lock_loop cur ((s, e) # post) = ([], Inl (Exception ValueError))"
  using assms by (auto simp add: isl_def split: sum.splits dest: strptime_raises)

text \<open>
  On windows written in \<open>HH:MM\<close> form the loop finds the first window that
  contains the time, in the specification's reading of a window.
\<close>

lemma lock_loop_hhmm:
  assumes "valid_tod t" "\<forall>w \<in> set tws. valid_tod (fst w) \<and> valid_tod (snd w)"
  shows "lock_loop (strftime_HM t) (map window_strings tws) =
           (case find (spec_inside_window t) tws of
              None \<Rightarrow> ([], Inr False)
            | Some w \<Rightarrow>
                ([Log INFO (InLockWindow (strftime_HM t) (strftime_HM (fst w))
                    (strftime_HM (snd w)))],
                 Inr True))"
  using assms(2)
proof (induction tws)
  case Nil
  then show ?case by simp
next
  case (Cons w tws)
  obtain s e where w: "w = (s, e)" by (cases w)
  from Cons.prems w have v: "valid_tod s" "valid_tod e" by simp_all
  have wrap: "strftime_HM e < strftime_HM s \<longleftrightarrow> \<not> s \<le> e"
    using strftime_less [OF v(2) v(1)] by auto
  from Cons have IH: "lock_loop (strftime_HM t) (map window_strings tws) =
           (case find (spec_inside_window t) tws of
              None \<Rightarrow> ([], Inr False)
            | Some w \<Rightarrow>
                ([Log INFO (InLockWindow (strftime_HM t) (strftime_HM (fst w))
                    (strftime_HM (snd w)))],
                 Inr True))" by simp
  have inside: "spec_inside_window t (s, e) \<longleftrightarrow>
      (if s \<le> e then s \<le> t \<and> t \<le> e else t \<ge> s \<or> t \<le> e)"
    by (simp add: spec_inside_window_def)
  show ?case
    by (simp add: w window_strings_def strptime_strftime assms(1) v wrap inside
        IH [unfolded window_strings_def])
qed

text \<open>The answer alone: true exactly when some window contains the time.\<close>

lemma lock_loop_answer:
  assumes "valid_tod t" "\<forall>w \<in> set tws. valid_tod (fst w) \<and> valid_tod (snd w)"
  shows "snd (lock_loop (strftime_HM t) (map window_strings tws)) =
           Inr (\<exists>w \<in> set tws. spec_inside_window t w)"
proof (cases "find (spec_inside_window t) tws")
  case None
  then have "snd (lock_loop (strftime_HM t) (map window_strings tws)) = Inr False"
    using lock_loop_hhmm [OF assms] by simp
  moreover from None have "\<not> (\<exists>w \<in> set tws. spec_inside_window t w)"
    by (auto simp add: find_None_iff)
  ultimately show ?thesis by simp
next
  case (Some w)
  then have "snd (lock_loop (strftime_HM t) (map window_strings tws)) = Inr True"
    using lock_loop_hhmm [OF assms] by simp
  moreover from Some have "\<exists>w \<in> set tws. spec_inside_window t w"
    by (auto simp add: find_Some_iff)
  ultimately show ?thesis by simp
qed

text \<open>
  The examples of the specification, on the windows of the program: 22:30 and
  03:00 are inside a window, 20:59 and 07:01 are not.
\<close>

lemma is_time_to_lock_examples:
  "is_time_to_lock init (22, 30) =
     ([Log INFO (InLockWindow ''22:30'' ''21:00'' ''23:59'')], Inr True)"
  "is_time_to_lock init (20, 59) = ([], Inr False)"
  "is_time_to_lock init (3, 0) =
     ([Log INFO (InLockWindow ''03:00'' ''00:00'' ''07:00'')], Inr True)"
  "is_time_to_lock init (7, 1) = ([], Inr False)"
  by (simp_all add: is_time_to_lock_def init_def catch_Exception_def strftime_HM_def
        digit_char_simps strptime_HM_def regex_HM_def digit_val_def)

text \<open>
  Outside the \<open>HH:MM\<close> form the test on the strings is not the order of the
  times: \<open>7:00\<close> parses as seven o'clock and is above \<open>13:00\<close> as a string, so
  the window from \<open>7:00\<close> to \<open>13:00\<close> is taken to wrap and contains 15:00.
\<close>

lemma unpadded_window_wraps:
  "is_time_to_lock (init\<lparr>lock_times := [(''7:00'', ''13:00'')]\<rparr>) (15, 0) =
     ([Log INFO (InLockWindow ''15:00'' ''7:00'' ''13:00'')], Inr True)"
  by (simp add: is_time_to_lock_def catch_Exception_def strftime_HM_def
        digit_char_simps strptime_HM_def regex_HM_def digit_val_def)

text \<open>
  C1.  For a clock time \<open>t\<close> and windows configured in \<open>HH:MM\<close> form, the schedule
  evaluator answers true exactly when some window contains \<open>t\<close>, where a window
  \<open>(s, e)\<close> with \<open>s \<le> e\<close> contains the times from \<open>s\<close> to \<open>e\<close>, both included, and a
  window with \<open>s > e\<close> contains the times from \<open>s\<close> on and the times up to \<open>e\<close>.  It
  stops at the first window of the list that contains \<open>t\<close>, which is the one it
  logs, and answers false when there is none.
\<close>

theorem is_time_to_lock_windows:
  assumes "valid_tod t"
    and "\<forall>w \<in> set tws. valid_tod (fst w) \<and> valid_tod (snd w)"
    and "lock_times self = map window_strings tws"
  shows "is_time_to_lock self t =
           (case find (spec_inside_window t) tws of
              None \<Rightarrow> ([], Inr False)
            | Some w \<Rightarrow>
                ([Log INFO (InLockWindow (strftime_HM t) (strftime_HM (fst w))
                    (strftime_HM (snd w)))],
                 Inr True))"
  using lock_loop_hhmm [OF assms(1,2)] assms(3)
  by (simp add: is_time_to_lock_def catch_Exception_def split: option.splits)

theorem is_time_to_lock_windows_witness:
  "valid_tod (22, 30) \<and>
   lock_times init =
     map window_strings
       [((11, 0), (13, 0)), ((17, 0), (19, 0)), ((21, 0), (23, 59)), ((0, 0), (7, 0))] \<and>
   is_time_to_lock init (22, 30) =
     ([Log INFO (InLockWindow ''22:30'' ''21:00'' ''23:59'')], Inr True)"
proof -
  let ?tws = "[((11, 0), (13, 0)), ((17, 0), (19, 0)), ((21, 0), (23, 59)),
               ((0::nat, 0::nat), (7::nat, 0::nat))]"
  have v: "valid_tod (22, 30)" by (simp add: valid_tod_def)
  have ws: "\<forall>w \<in> set ?tws. valid_tod (fst w) \<and> valid_tod (snd w)"
    by (simp add: valid_tod_def)
  have lt: "lock_times init = map window_strings ?tws"
    by (simp add: init_def window_strings_def strftime_HM_def digit_char_simps)
  show ?thesis
    using v lt is_time_to_lock_windows [OF v ws lt]
    by (simp add: spec_inside_window_def strftime_HM_def digit_char_simps)
qed

text \<open>
  C10.  The schedule evaluator never lets an exception reach its caller.  When
  the loop meets a window whose start or end does not parse, before any window
  has matched, the \<open>ValueError\<close> is caught and logged and the answer is false.
\<close>

theorem is_time_to_lock_fails_open:
  "(\<exists>evs b. is_time_to_lock self now = (evs, Inr b)) \<and>
   (lock_times self = pre @ (s, e) # post \<and>
    lock_loop (strftime_HM now) pre = ([], Inr False) \<and>
    (isl (strptime_HM s) \<or> isl (strptime_HM e)) \<longrightarrow>
      is_time_to_lock self now =
        ([Log ERROR (CheckLockError ValueError), Log ERROR Traceback], Inr False))"
proof (intro conjI impI)
  obtain evs r where body: "lock_loop (strftime_HM now) (lock_times self) = (evs, r)"
    by (cases "lock_loop (strftime_HM now) (lock_times self)")
  show "\<exists>evs b. is_time_to_lock self now = (evs, Inr b)"
  proof (cases r)
    case (Inl x)
    with body lock_loop_raises have "x = Exception ValueError" by blast
    with body Inl show ?thesis by (auto simp add: is_time_to_lock_def catch_Exception_def)
  next
    case (Inr b)
    with body show ?thesis by (simp add: is_time_to_lock_def catch_Exception_def)
  qed
next
  assume a: "lock_times self = pre @ (s, e) # post \<and>
    lock_loop (strftime_HM now) pre = ([], Inr False) \<and>
    (isl (strptime_HM s) \<or> isl (strptime_HM e))"
  then have "lock_loop (strftime_HM now) (lock_times self) = ([], Inl (Exception ValueError))"
    using lock_loop_append [of "strftime_HM now" pre "(s, e) # post"] lock_loop_malformed [of s e]
    by simp
  then show "is_time_to_lock self now =
        ([Log ERROR (CheckLockError ValueError), Log ERROR Traceback], Inr False)"
    by (simp add: is_time_to_lock_def catch_Exception_def)
qed

theorem is_time_to_lock_fails_open_witness:
  "lock_times (init\<lparr>lock_times := [(''11:00'', ''13:00''), (''25:00'', ''26:00'')]\<rparr>) =
     [(''11:00'', ''13:00'')] @ (''25:00'', ''26:00'') # [] \<and>
   lock_loop (strftime_HM (3, 0)) [(''11:00'', ''13:00'')] = ([], Inr False) \<and>
   (isl (strptime_HM ''25:00'') \<or> isl (strptime_HM ''26:00'')) \<and>
   is_time_to_lock (init\<lparr>lock_times := [(''11:00'', ''13:00''), (''25:00'', ''26:00'')]\<rparr>) (3, 0) =
     ([Log ERROR (CheckLockError ValueError), Log ERROR Traceback], Inr False)"
proof -
  let ?self = "init\<lparr>lock_times := [(''11:00'', ''13:00''), (''25:00'', ''26:00'')]\<rparr>"
  have a: "lock_times ?self = [(''11:00'', ''13:00'')] @ (''25:00'', ''26:00'') # []" by simp
  have b: "lock_loop (strftime_HM (3, 0)) [(''11:00'', ''13:00'')] = ([], Inr False)"
    by (simp add: strftime_HM_def digit_char_simps strptime_HM_def regex_HM_def digit_val_def)
  have c: "isl (strptime_HM ''25:00'') \<or> isl (strptime_HM ''26:00'')"
    by (simp add: strptime_HM_def regex_HM_def digit_val_def)
  from is_time_to_lock_fails_open
         [of ?self "(3, 0)" "[(''11:00'', ''13:00'')]" "''25:00''" "''26:00''" "[]"] a b c
  show ?thesis by blast
qed

section \<open>Time source client: results\<close>

lemma sleeps_append: "sleeps (xs @ ys) = sleeps xs @ sleeps ys"
  by (induction xs rule: sleeps.induct) simp_all

lemma started_append: "started (xs @ ys) = started xs @ started ys"
  by (induction xs rule: started.induct) simp_all

lemma ntp_loop_failures:
  assumes "\<forall>x \<in> set pre. isl (net x 5)"
  shows "ntp_loop net (pre @ rest) =
           (map (\<lambda>x. Log WARNING (NtpFailed x (projl (net x 5)))) pre @ fst (ntp_loop net rest),
            snd (ntp_loop net rest))"
  using assms
  by (induction pre) (auto simp add: catch_Exception_def isl_def split: prod.splits)

lemma ntp_loop_returns: "\<exists>evs r. ntp_loop net servers = (evs, Inr r)"
  by (induction servers) (auto simp add: catch_Exception_def split: sum.splits prod.splits option.splits)

lemma ntp_loop_logs: "ntp_loop net servers = (evs, r) \<Longrightarrow> ev \<in> set evs \<Longrightarrow> \<exists>l m. ev = Log l m"
  by (induction servers arbitrary: evs r)
     (auto simp add: catch_Exception_def split: sum.splits prod.splits option.splits)

text \<open>
  C6.  The time source client asks the servers of its list in order, each with a
  timeout of 5 seconds.  It never raises to its caller.  The first server that
  answers decides the result: the failures before it are logged as warnings and
  no later server appears in the trace.  When every server fails the result is
  \<open>None\<close>, with one warning for each server.
\<close>

theorem get_network_time_first_success:
  "(\<exists>evs r. get_network_time self net = (evs, Inr r)) \<and>
   (ntp_servers self = pre @ server # post \<and> (\<forall>x \<in> set pre. isl (net x 5)) \<and>
    net server 5 = Inr t \<longrightarrow>
      get_network_time self net =
        (map (\<lambda>x. Log WARNING (NtpFailed x (projl (net x 5)))) pre @ [Log DEBUG (NtpOk server)],
         Inr (Some t))) \<and>
   ((\<forall>x \<in> set (ntp_servers self). isl (net x 5)) \<longrightarrow>
      get_network_time self net =
        (map (\<lambda>x. Log WARNING (NtpFailed x (projl (net x 5)))) (ntp_servers self), Inr None))"
proof (intro conjI impI)
  show "\<exists>evs r. get_network_time self net = (evs, Inr r)"
    using ntp_loop_returns by (simp add: get_network_time_def)
next
  assume a: "ntp_servers self = pre @ server # post \<and> (\<forall>x \<in> set pre. isl (net x 5)) \<and>
    net server 5 = Inr t"
  then have "ntp_loop net (server # post) = ([Log DEBUG (NtpOk server)], Inr (Some t))"
    by (simp add: catch_Exception_def)
  with a ntp_loop_failures [of pre net "server # post"]
  show "get_network_time self net =
        (map (\<lambda>x. Log WARNING (NtpFailed x (projl (net x 5)))) pre @ [Log DEBUG (NtpOk server)],
         Inr (Some t))"
    by (simp add: get_network_time_def)
next
  assume "\<forall>x \<in> set (ntp_servers self). isl (net x 5)"
  with ntp_loop_failures [of "ntp_servers self" net "[]"]
  show "get_network_time self net =
        (map (\<lambda>x. Log WARNING (NtpFailed x (projl (net x 5)))) (ntp_servers self), Inr None)"
    by (simp add: get_network_time_def)
qed

theorem get_network_time_first_success_witness:
  "get_network_time init third_answers =
     ([Log WARNING (NtpFailed ''pool.ntp.org'' NTPException),
       Log WARNING (NtpFailed ''time.windows.com'' NTPException),
       Log DEBUG (NtpOk ''time.apple.com'')], Inr (Some 1700000000000000)) \<and>
   get_network_time init no_answer =
     ([Log WARNING (NtpFailed ''pool.ntp.org'' NTPException),
       Log WARNING (NtpFailed ''time.windows.com'' NTPException),
       Log WARNING (NtpFailed ''time.apple.com'' NTPException),
       Log WARNING (NtpFailed ''time.google.com'' NTPException)], Inr None)"
proof -
  have s: "ntp_servers init =
      [''pool.ntp.org'', ''time.windows.com''] @ ''time.apple.com'' # [''time.google.com'']"
    by (simp add: init_def)
  have f: "\<forall>x \<in> set [''pool.ntp.org'', ''time.windows.com'']. isl (third_answers x 5)"
    by (simp add: third_answers_def)
  have t: "third_answers ''time.apple.com'' 5 = Inr 1700000000000000"
    by (simp add: third_answers_def)
  have n: "\<forall>x \<in> set (ntp_servers init). isl (no_answer x 5)"
    by (simp add: no_answer_def)
  have a: "get_network_time init third_answers =
     ([Log WARNING (NtpFailed ''pool.ntp.org'' NTPException),
       Log WARNING (NtpFailed ''time.windows.com'' NTPException),
       Log DEBUG (NtpOk ''time.apple.com'')], Inr (Some 1700000000000000))"
    using get_network_time_first_success
            [of init third_answers "[''pool.ntp.org'', ''time.windows.com'']" "''time.apple.com''"
               "[''time.google.com'']" 1700000000000000] s f t
    by (simp add: third_answers_def)
  have b: "get_network_time init no_answer =
     ([Log WARNING (NtpFailed ''pool.ntp.org'' NTPException),
       Log WARNING (NtpFailed ''time.windows.com'' NTPException),
       Log WARNING (NtpFailed ''time.apple.com'' NTPException),
       Log WARNING (NtpFailed ''time.google.com'' NTPException)], Inr None)"
    using get_network_time_first_success [of init no_answer "[]" "[]" "[]" 0] n
    by (simp add: no_answer_def init_def)
  from a b show ?thesis by simp
qed

section \<open>Countdown tasks: results\<close>

text \<open>
  C7.  The schedule countdown sleeps 60 seconds and then, when the stop signal is
  not set, calls the lock action once, whatever the state of the checker: nothing
  else is tested between the sleep and the call.
\<close>

theorem time_lock_countdown_locks:
  assumes "\<not> stop"
  shows "time_lock_countdown stop res self =
           (fst (lock_windows res self),
            [Log INFO TimeLockCountdownStarted, Sleep 60, Log INFO Locking, LockWorkStation] @
            (case res of
               None \<Rightarrow> []
             | Some e \<Rightarrow> [Log ERROR (LockFailed e), Log ERROR Traceback])) \<and>
         count_list (snd (time_lock_countdown stop res self)) LockWorkStation = 1"
  using assms by (simp add: time_lock_countdown_def lock_windows_def split: option.splits)

theorem time_lock_countdown_locks_witness:
  "time_lock_countdown False None (init\<lparr>warning_active := True\<rparr>) =
     (init\<lparr>warning_active := False\<rparr>,
      [Log INFO TimeLockCountdownStarted, Sleep 60, Log INFO Locking, LockWorkStation]) \<and>
   count_list (snd (time_lock_countdown False None (init\<lparr>warning_active := True\<rparr>)))
     LockWorkStation = 1"
  using time_lock_countdown_locks [of False None "init\<lparr>warning_active := True\<rparr>"]
  by (simp add: lock_windows_def)

lemma logs_only:
  assumes "list_all is_log evs"
  shows "sleeps evs = []" "started evs = []" "LockWorkStation \<notin> set evs" "Shown d \<notin> set evs"
  using assms by (induction evs rule: sleeps.induct) auto

lemma ntp_loop_is_log: "list_all is_log (fst (ntp_loop net servers))"
  by (induction servers)
     (auto simp add: catch_Exception_def split: sum.splits prod.splits option.splits)

lemma get_network_time_cases:
  obtains evs r where "get_network_time self net = (evs, Inr r)" "list_all is_log evs"
  using ntp_loop_returns [of net "ntp_servers self"] ntp_loop_is_log [of net "ntp_servers self"]
  by (auto simp add: get_network_time_def)

lemma countdown_sample_next:
  assumes "\<not> sample_resynced self smp"
  shows "\<exists>evs. countdown_sample smp tk self = (self, evs, Next) \<and> list_all is_log evs"
proof -
  obtain evs r where g: "get_network_time self (ntp smp) = (evs, Inr r)" "list_all is_log evs"
    by (rule get_network_time_cases)
  with assms show ?thesis
    by (cases r) (auto simp add: countdown_sample_def sample_resynced_def Let_def)
qed

lemma countdown_sample_return:
  assumes "sample_resynced self smp"
  shows "\<exists>evs. countdown_sample smp tk self =
           (self\<lparr>warning_active := False\<rparr>,
            evs @ Log INFO ResyncedCancel # show_normal_message tk, Return) \<and>
         list_all is_log evs"
proof -
  obtain evs r where g: "get_network_time self (ntp smp) = (evs, Inr r)" "list_all is_log evs"
    by (rule get_network_time_cases)
  with assms show ?thesis
    by (cases r) (auto simp add: countdown_sample_def sample_resynced_def Let_def)
qed

lemma countdown_loop_no_resync:
  assumes "\<forall>i \<in> set is. \<not> stop_set (smps i) \<and> \<not> sample_resynced self (smps i)"
  shows "\<exists>evs. countdown_loop smps tk is self = (self, evs, Next) \<and>
           LockWorkStation \<notin> set evs \<and> sleeps evs = replicate (length is) 10 \<and>
           Shown d \<notin> set evs"
  using assms
proof (induction "is")
  case Nil
  then show ?case by simp
next
  case (Cons i "is")
  then obtain evs' where IH: "countdown_loop smps tk is self = (self, evs', Next)"
      "LockWorkStation \<notin> set evs'" "sleeps evs' = replicate (length is) 10" "Shown d \<notin> set evs'"
    by auto
  from Cons.prems have i: "\<not> stop_set (smps i)" "\<not> sample_resynced self (smps i)" by simp_all
  from countdown_sample_next [OF i(2)] obtain evs where
    s: "countdown_sample (smps i) tk self = (self, evs, Next)" "list_all is_log evs" by blast
  show ?case
    using i(1) s(1) IH logs_only [OF s(2)]
    by (simp add: sleeps_append)
qed

lemma countdown_loop_resync:
  assumes "\<forall>i \<in> set pre. \<not> stop_set (smps i) \<and> \<not> sample_resynced self (smps i)"
    and "\<not> stop_set (smps k)" and "sample_resynced self (smps k)"
  shows "\<exists>evs. countdown_loop smps tk (pre @ k # post) self =
           (self\<lparr>warning_active := False\<rparr>,
            evs @ Log INFO ResyncedCancel # show_normal_message tk, Return) \<and>
           LockWorkStation \<notin> set evs \<and> sleeps evs = replicate (length pre) 10 \<and>
           Shown d \<notin> set evs"
  using assms(1)
proof (induction pre)
  case Nil
  from countdown_sample_return [OF assms(3)] obtain evs where
    s: "countdown_sample (smps k) tk self =
           (self\<lparr>warning_active := False\<rparr>,
            evs @ Log INFO ResyncedCancel # show_normal_message tk, Return)" "list_all is_log evs"
    by blast
  show ?case using assms(2) s(1) logs_only [OF s(2)] by simp
next
  case (Cons i pre)
  then obtain evs' where IH: "countdown_loop smps tk (pre @ k # post) self =
           (self\<lparr>warning_active := False\<rparr>,
            evs' @ Log INFO ResyncedCancel # show_normal_message tk, Return)"
      "LockWorkStation \<notin> set evs'" "sleeps evs' = replicate (length pre) 10" "Shown d \<notin> set evs'"
    by auto
  from Cons.prems have i: "\<not> stop_set (smps i)" "\<not> sample_resynced self (smps i)" by simp_all
  from countdown_sample_next [OF i(2)] obtain evs where
    s: "countdown_sample (smps i) tk self = (self, evs, Next)" "list_all is_log evs" by blast
  let ?evs = "evs @ [Log INFO (CountdownRemaining (5 - (of_nat i + 1) * 10 / 60)), Sleep 10] @ evs'"
  have "countdown_loop smps tk ((i # pre) @ k # post) self =
           (self\<lparr>warning_active := False\<rparr>,
            ?evs @ Log INFO ResyncedCancel # show_normal_message tk, Return)"
    using i(1) s(1) IH(1) by simp
  moreover have "LockWorkStation \<notin> set ?evs" "sleeps ?evs = replicate (length (i # pre)) 10"
     "Shown d \<notin> set ?evs"
    using IH(2,3,4) logs_only [OF s(2)] by (simp_all add: sleeps_append)
  ultimately show ?case by blast
qed

lemma tk_failed_events:
  "LockWorkStation \<notin> set (tk_failed a e)" "Shown d \<notin> set (tk_failed a e)"
  by (simp_all add: tk_failed_def)

lemma safe_tk_loop_no_lock: "LockWorkStation \<notin> set (safe_tk_loop d tk as)"
  by (induction as) (auto simp add: tk_failed_events split: tk_outcome.splits)

lemma safe_tk_loop_shown:
  "Shown d' \<in> set (safe_tk_loop d tk as) \<longleftrightarrow> d' = d \<and> (\<exists>a \<in> set as. shows_box (tk a))"
  by (induction as) (auto simp add: tk_failed_events split: tk_outcome.splits)

lemma show_normal_message_shown:
  "Shown InfoDialog \<in> set (show_normal_message tk) \<longleftrightarrow> (\<exists>a < max_retries. shows_box (tk a))"
  by (auto simp add: show_normal_message_def safe_tk_operation_def safe_tk_loop_shown)

lemma show_normal_message_no_lock: "LockWorkStation \<notin> set (show_normal_message tk)"
  by (simp add: show_normal_message_def safe_tk_operation_def safe_tk_loop_no_lock)

lemma failing_sample_facts:
  "\<not> stop_set failing_sample" "\<not> sample_resynced init failing_sample"
  by (simp_all add: failing_sample_def sample_resynced_def get_network_time_def init_def
        no_answer_def catch_Exception_def)

lemma third_answers_init:
  "get_network_time init third_answers =
     ([Log WARNING (NtpFailed ''pool.ntp.org'' NTPException),
       Log WARNING (NtpFailed ''time.windows.com'' NTPException),
       Log DEBUG (NtpOk ''time.apple.com'')], Inr (Some 1700000000000000))"
  by (simp add: get_network_time_def init_def third_answers_def catch_Exception_def)

lemma drifting_sample_facts:
  "\<not> stop_set drifting_sample" "\<not> sample_resynced init drifting_sample"
  by (simp_all add: drifting_sample_def sample_resynced_def third_answers_init
        time_diff_def total_seconds_def)

lemma synced_sample_facts:
  "\<not> stop_set synced_sample" "sample_resynced init synced_sample"
  by (simp_all add: synced_sample_def sample_resynced_def third_answers_init
        time_diff_def total_seconds_def)

text \<open>
  C2.  When none of the 30 rounds of the drift countdown shows a resync (the time
  source fails or the drift is above 5 minutes) and the stop signal is never set,
  the countdown sleeps 30 times 10 seconds and then calls the lock action: the
  trace holds exactly one call of \<open>LockWorkStation\<close>, after all the sleeps.
\<close>

theorem countdown_check_expiry:
  assumes "\<forall>i < total_checks. \<not> stop_set (samples env i) \<and> \<not> sample_resynced self (samples env i)"
    and "\<not> stop_at_end env"
  shows "\<exists>pre. countdown_check env self =
           (fst (lock_windows (lock_result env) self),
            pre @ snd (lock_windows (lock_result env) self), None) \<and>
         LockWorkStation \<notin> set pre \<and> sleeps pre = replicate 30 10 \<and>
         count_list (fst (snd (countdown_check env self))) LockWorkStation = 1"
proof -
  from assms(1) have "\<forall>i \<in> set [0..<total_checks].
      \<not> stop_set (samples env i) \<and> \<not> sample_resynced self (samples env i)" by simp
  from countdown_loop_no_resync [OF this, of "tk_dialog env" InfoDialog] obtain pre where
    l: "countdown_loop (samples env) (tk_dialog env) [0..<total_checks] self = (self, pre, Next)"
       "LockWorkStation \<notin> set pre" "sleeps pre = replicate (length [0..<total_checks]) 10"
    by blast
  have c: "countdown_check env self =
           (fst (lock_windows (lock_result env) self),
            pre @ snd (lock_windows (lock_result env) self), None)"
    using l(1) assms(2) by (simp add: countdown_check_def split: prod.splits)
  have "count_list (snd (lock_windows (lock_result env) self)) LockWorkStation = 1"
    by (simp add: lock_windows_def split: option.splits)
  with l(2) have "count_list (pre @ snd (lock_windows (lock_result env) self)) LockWorkStation = 1"
    by (simp add: count_list_0_iff)
  with c l show ?thesis by (simp add: total_checks_def)
qed

theorem countdown_check_expiry_witness:
  "\<not> stop_at_end expiry_env \<and>
   (\<exists>pre. countdown_check expiry_env (init\<lparr>warning_active := True\<rparr>) =
           (init\<lparr>warning_active := False\<rparr>, pre @ [Log INFO Locking, LockWorkStation], None) \<and>
         LockWorkStation \<notin> set pre \<and> sleeps pre = replicate 30 10) \<and>
   count_list (fst (snd (countdown_check expiry_env (init\<lparr>warning_active := True\<rparr>))))
     LockWorkStation = 1"
proof -
  let ?self = "init\<lparr>warning_active := True\<rparr>"
  have r: "sample_resynced ?self smp = sample_resynced init smp" for smp
    by (simp add: sample_resynced_def get_network_time_def)
  have h: "\<forall>i < total_checks.
      \<not> stop_set (samples expiry_env i) \<and> \<not> sample_resynced ?self (samples expiry_env i)"
    by (simp add: expiry_env_def r failing_sample_facts drifting_sample_facts)
  have s: "\<not> stop_at_end expiry_env" by (simp add: expiry_env_def)
  have lw: "lock_windows (lock_result expiry_env) ?self =
      (init\<lparr>warning_active := False\<rparr>, [Log INFO Locking, LockWorkStation])"
    by (simp add: expiry_env_def lock_windows_def)
  from countdown_check_expiry [OF h s] s show ?thesis
    unfolding lw by auto
qed

lemma upt_split:
  assumes "k < n"
  shows "[0..<n] = [0..<k] @ k # [Suc k..<n]"
proof -
  have "[0..<n] = [0..<k + (n - k)]" using assms by simp
  also have "\<dots> = [0..<k] @ [k..<k + (n - k)]" by (rule upt_add_eq_append) simp
  also have "[k..<k + (n - k)] = k # [Suc k..<n]" using assms by (simp add: upt_conv_Cons)
  finally show ?thesis .
qed

text \<open>
  C3.  When round \<open>k\<close> of the drift countdown is the first to show a resync, and
  the stop signal was not set up to that round, the countdown ends there: the
  trace holds no call of \<open>LockWorkStation\<close>, the warning flag is false afterwards,
  and \<open>show_normal_message\<close> runs last.  The confirmation box is on screen exactly
  when one of the attempts of the Tk wrapper gets as far as showing it.
\<close>

theorem countdown_check_resync:
  assumes "k < total_checks"
    and "\<forall>i < k. \<not> stop_set (samples env i) \<and> \<not> sample_resynced self (samples env i)"
    and "\<not> stop_set (samples env k)"
    and "sample_resynced self (samples env k)"
  shows "\<exists>pre. countdown_check env self =
           (self\<lparr>warning_active := False\<rparr>,
            pre @ Log INFO ResyncedCancel # show_normal_message (tk_dialog env), None) \<and>
         sleeps pre = replicate k 10 \<and>
         LockWorkStation \<notin> set (fst (snd (countdown_check env self))) \<and>
         (Shown InfoDialog \<in> set (fst (snd (countdown_check env self))) \<longleftrightarrow>
            (\<exists>a < max_retries. shows_box (tk_dialog env a)))"
proof -
  have split: "[0..<total_checks] = [0..<k] @ k # [Suc k..<total_checks]"
    using assms(1) by (rule upt_split)
  from assms(2) have "\<forall>i \<in> set [0..<k].
      \<not> stop_set (samples env i) \<and> \<not> sample_resynced self (samples env i)" by simp
  from countdown_loop_resync [OF this assms(3,4), of "tk_dialog env" "[Suc k..<total_checks]" InfoDialog]
  obtain pre where
    l: "countdown_loop (samples env) (tk_dialog env) [0..<total_checks] self =
          (self\<lparr>warning_active := False\<rparr>,
           pre @ Log INFO ResyncedCancel # show_normal_message (tk_dialog env), Return)"
       "LockWorkStation \<notin> set pre" "sleeps pre = replicate (length [0..<k]) 10"
       "Shown InfoDialog \<notin> set pre"
    unfolding split by blast
  have c: "countdown_check env self =
           (self\<lparr>warning_active := False\<rparr>,
            pre @ Log INFO ResyncedCancel # show_normal_message (tk_dialog env), None)"
    using l(1) by (simp add: countdown_check_def)
  show ?thesis
    using c l(2,3,4) show_normal_message_no_lock [of "tk_dialog env"]
      show_normal_message_shown [of "tk_dialog env"]
    by auto
qed

theorem countdown_check_resync_witness:
  "\<not> stop_set (samples resync_env 2) \<and> sample_resynced init (samples resync_env 2) \<and>
   warning_active (fst (countdown_check resync_env (init\<lparr>warning_active := True\<rparr>))) = False \<and>
   LockWorkStation \<notin>
     set (fst (snd (countdown_check resync_env (init\<lparr>warning_active := True\<rparr>)))) \<and>
   Shown InfoDialog \<in>
     set (fst (snd (countdown_check resync_env (init\<lparr>warning_active := True\<rparr>))))"
proof -
  let ?self = "init\<lparr>warning_active := True\<rparr>"
  have r: "sample_resynced ?self smp = sample_resynced init smp" for smp
    by (simp add: sample_resynced_def get_network_time_def)
  have k: "(2::nat) < total_checks" by (simp add: total_checks_def)
  have h: "\<forall>i < 2. \<not> stop_set (samples resync_env i) \<and>
      \<not> sample_resynced ?self (samples resync_env i)"
    by (simp add: resync_env_def r drifting_sample_facts)
  have s: "\<not> stop_set (samples resync_env 2)"
    by (simp add: resync_env_def synced_sample_facts)
  have y: "sample_resynced ?self (samples resync_env 2)"
    by (simp add: resync_env_def r synced_sample_facts)
  have t: "\<exists>a < max_retries. shows_box (tk_dialog resync_env a)"
    by (auto simp add: resync_env_def max_retries_def intro: exI [of _ 0])
  from countdown_check_resync [OF k h s y] s y t show ?thesis
    by (auto simp add: r)
qed

text \<open>
  The confirmation box itself is not guaranteed: on a host where Tk fails in each
  of the three attempts, the countdown is cancelled in its third round and no box
  is shown.
\<close>

theorem countdown_check_resync_no_dialog:
  "\<not> stop_set (samples resync_no_tk_env 2) \<and>
   sample_resynced init (samples resync_no_tk_env 2) \<and>
   Shown InfoDialog \<notin>
     set (fst (snd (countdown_check resync_no_tk_env (init\<lparr>warning_active := True\<rparr>))))"
proof -
  let ?self = "init\<lparr>warning_active := True\<rparr>"
  have r: "sample_resynced ?self smp = sample_resynced init smp" for smp
    by (simp add: sample_resynced_def get_network_time_def)
  have k: "(2::nat) < total_checks" by (simp add: total_checks_def)
  have h: "\<forall>i \<in> set [0, Suc 0]. \<not> stop_set (samples resync_no_tk_env i) \<and>
      \<not> sample_resynced ?self (samples resync_no_tk_env i)"
    by (simp add: resync_no_tk_env_def r drifting_sample_facts)
  have s: "\<not> stop_set (samples resync_no_tk_env 2)"
    by (simp add: resync_no_tk_env_def synced_sample_facts)
  have y: "sample_resynced ?self (samples resync_no_tk_env 2)"
    by (simp add: resync_no_tk_env_def r synced_sample_facts)
  have split: "[0..<total_checks] = [0, Suc 0] @ 2 # [3..<total_checks]"
    by (simp add: total_checks_def upt_rec)
  from countdown_loop_resync [OF h s y, of "tk_dialog resync_no_tk_env" "[3..<total_checks]" InfoDialog]
  obtain pre where
    l: "countdown_loop (samples resync_no_tk_env) (tk_dialog resync_no_tk_env) [0..<total_checks] ?self =
          (?self\<lparr>warning_active := False\<rparr>,
           pre @ Log INFO ResyncedCancel # show_normal_message (tk_dialog resync_no_tk_env), Return)"
       "Shown InfoDialog \<notin> set pre"
    unfolding split by blast
  have n: "Shown InfoDialog \<notin> set (show_normal_message (tk_dialog resync_no_tk_env))"
    by (simp add: show_normal_message_shown resync_no_tk_env_def)
  have "fst (snd (countdown_check resync_no_tk_env ?self)) =
      pre @ Log INFO ResyncedCancel # show_normal_message (tk_dialog resync_no_tk_env)"
    using l(1) by (simp add: countdown_check_def)
  with l(2) n s y show ?thesis by (simp add: r)
qed

section \<open>Main loop: results\<close>

lemma lock_loop_is_log: "list_all is_log (fst (lock_loop cur ws))"
  by (induction cur ws rule: lock_loop.induct) (auto split: sum.splits)

lemma is_time_to_lock_cases:
  obtains evs b where "is_time_to_lock self now = (evs, Inr b)" "list_all is_log evs"
proof -
  obtain evs r where body: "lock_loop (strftime_HM now) (lock_times self) = (evs, r)"
    by (cases "lock_loop (strftime_HM now) (lock_times self)")
  have l: "list_all is_log evs" using lock_loop_is_log [of "strftime_HM now" "lock_times self"] body
    by simp
  show thesis
  proof (cases r)
    case (Inl x)
    with body lock_loop_raises have "x = Exception ValueError" by blast
    with body Inl l show ?thesis
      by (intro that [of "evs @ [Log ERROR (CheckLockError ValueError), Log ERROR Traceback]" False])
         (simp_all add: is_time_to_lock_def catch_Exception_def)
  next
    case (Inr b)
    with body l show ?thesis
      by (intro that [of evs b]) (simp_all add: is_time_to_lock_def catch_Exception_def)
  qed
qed

lemma trigger_cases:
  obtains evs f where "trigger m why c env self = (self\<lparr>warning_active := True\<rparr>, evs, f)"
    "sleeps evs = []" "LockWorkStation \<notin> set evs"
    "started evs = [] \<or> started evs = [ShowCountdownWarning m why] \<or>
     started evs = [ShowCountdownWarning m why, c]"
    "start_dialog env = None \<and> start_countdown env = None \<longrightarrow>
       started evs = [ShowCountdownWarning m why, c] \<and> f = Next"
  by (cases "start_dialog env"; cases "start_countdown env") (auto simp add: trigger_def)

lemma cycle_body_guarded:
  assumes "warning_active self"
  shows "started (fst (snd (cycle_body env self))) = [] \<and> fst (cycle_body env self) = self"
proof -
  obtain evs b where t: "is_time_to_lock self (now_hm env) = (evs, Inr b)" "list_all is_log evs"
    by (rule is_time_to_lock_cases)
  obtain evs1 r where g: "get_network_time self (ntp env) = (evs1, Inr r)" "list_all is_log evs1"
    by (rule get_network_time_cases)
  show ?thesis
    using assms t g logs_only(2) [OF t(2)] logs_only(2) [OF g(2)]
    by (cases b; cases r; cases "sleep_60 env")
       (auto simp add: cycle_body_def started_append Let_def)
qed

lemma sleep_after_facts:
  "fst (sleep_after env self evs) = self"
  "started (fst (snd (sleep_after env self evs))) = started evs"
  by (auto simp add: sleep_after_def started_append split: option.splits)

lemma cycle_of_body:
  "fst (cycle env self) = fst (cycle_body env self)"
  "started (fst (snd (cycle env self))) = started (fst (snd (cycle_body env self)))"
proof -
  obtain s1 evs f where b: "cycle_body env self = (s1, evs, f)" by (cases "cycle_body env self")
  show "fst (cycle env self) = fst (cycle_body env self)"
    using b by (cases f) (auto simp add: cycle_def sleep_after_facts split: base_exception.splits)
  show "started (fst (snd (cycle env self))) = started (fst (snd (cycle_body env self)))"
    using b by (cases f)
      (auto simp add: cycle_def sleep_after_facts started_append split: base_exception.splits)
qed

lemma cycle_guarded:
  assumes "warning_active self"
  shows "started (fst (snd (cycle env self))) = []" "fst (cycle env self) = self"
  using cycle_body_guarded [OF assms, of env] by (simp_all add: cycle_of_body)

lemma check_time_guarded:
  assumes "warning_active self"
  shows "started (fst (snd (check_time envs self))) = [] \<and> fst (check_time envs self) = self"
proof (induction envs)
  case Nil
  then show ?case by simp
next
  case (Cons env envs)
  obtain s1 evs f where c: "cycle env self = (s1, evs, f)" by (cases "cycle env self")
  with cycle_guarded [OF assms, of env] have s: "s1 = self" "started evs = []" by simp_all
  show ?case
    using c s Cons.IH
    by (cases f) (auto simp add: started_append split: prod.splits)
qed

lemma cycle_body_idle:
  assumes "\<not> warning_active self"
  shows "length (filter is_countdown (started (fst (snd (cycle_body env self))))) \<le> 1 \<and>
         length (started (fst (snd (cycle_body env self)))) \<le> 2 \<and>
         (fst (cycle_body env self) = self \<and> started (fst (snd (cycle_body env self))) = [] \<or>
          warning_active (fst (cycle_body env self)))"
proof -
  obtain evs b where t: "is_time_to_lock self (now_hm env) = (evs, Inr b)" "list_all is_log evs"
    by (rule is_time_to_lock_cases)
  obtain evs1 r where g: "get_network_time self (ntp env) = (evs1, Inr r)" "list_all is_log evs1"
    by (rule get_network_time_cases)
  obtain e1 f1 where t1: "trigger 1 ScheduleLock TimeLockCountdown env self =
      (self\<lparr>warning_active := True\<rparr>, e1, f1)"
    "started e1 = [] \<or> started e1 = [ShowCountdownWarning 1 ScheduleLock] \<or>
     started e1 = [ShowCountdownWarning 1 ScheduleLock, TimeLockCountdown]"
    by (rule trigger_cases) blast
  obtain e5 f5 where t5: "trigger 5 TimeSync CountdownCheck env self =
      (self\<lparr>warning_active := True\<rparr>, e5, f5)"
    "started e5 = [] \<or> started e5 = [ShowCountdownWarning 5 TimeSync] \<or>
     started e5 = [ShowCountdownWarning 5 TimeSync, CountdownCheck]"
    by (rule trigger_cases) blast
  show ?thesis
    using assms t g t1 t5 logs_only(2) [OF t(2)] logs_only(2) [OF g(2)]
    by (cases b; cases r; cases "sleep_60 env"; cases f1)
       (auto simp add: cycle_body_def started_append Let_def)
qed

lemma cycle_idle:
  assumes "\<not> warning_active self"
  shows "length (filter is_countdown (started (fst (snd (cycle env self))))) \<le> 1 \<and>
         length (started (fst (snd (cycle env self)))) \<le> 2 \<and>
         (fst (cycle env self) = self \<and> started (fst (snd (cycle env self))) = [] \<or>
          warning_active (fst (cycle env self)))"
  using cycle_body_idle [OF assms, of env] by (simp add: cycle_of_body)

lemma check_time_starts:
  "length (filter is_countdown (started (fst (snd (check_time envs self))))) \<le> 1 \<and>
   length (started (fst (snd (check_time envs self)))) \<le> 2"
proof (induction envs arbitrary: self)
  case Nil
  then show ?case by simp
next
  case (Cons env envs)
  obtain s1 evs f where c: "cycle env self = (s1, evs, f)" by (cases "cycle env self")
  obtain s2 evs' r where n: "check_time envs s1 = (s2, evs', r)" by (cases "check_time envs s1")
  have step: "fst (snd (check_time (env # envs) self)) = [] \<or>
      fst (snd (check_time (env # envs) self)) = evs \<or>
      fst (snd (check_time (env # envs) self)) = evs @ evs'"
    using c n by (cases f) auto
  show ?case
  proof (cases "warning_active self")
    case True
    with check_time_guarded [of self "env # envs"] show ?thesis by simp
  next
    case False
    from cycle_idle [OF False, of env] c
    have i: "length (filter is_countdown (started evs)) \<le> 1" "length (started evs) \<le> 2"
      "s1 = self \<and> started evs = [] \<or> warning_active s1" by simp_all
    from i(3) show ?thesis
    proof
      assume "s1 = self \<and> started evs = []"
      with Cons.IH [of s1] n step show ?thesis by (auto simp add: started_append)
    next
      assume "warning_active s1"
      with check_time_guarded [of s1 envs] n have "started evs' = []" by simp
      with i step show ?thesis by (auto simp add: started_append)
    qed
  qed
qed

text \<open>
  C4.  While the warning flag is true the main loop starts nothing: a cycle, and
  any number of cycles of \<open>check_time\<close>, start no countdown thread and no dialog
  thread and leave the flag as it is, whether the cycle finds a lock window, a
  drift above 5 minutes or no time source.  From any state, the cycles of
  \<open>check_time\<close> together start at most one countdown thread and at most two
  threads in all, since the first trigger sets the flag.
\<close>

theorem warning_active_guards_triggers:
  "(warning_active self \<longrightarrow>
      started (fst (snd (cycle env self))) = [] \<and> fst (cycle env self) = self \<and>
      started (fst (snd (check_time envs self))) = [] \<and> fst (check_time envs self) = self) \<and>
   length (filter is_countdown (started (fst (snd (check_time envs self))))) \<le> 1 \<and>
   length (started (fst (snd (check_time envs self)))) \<le> 2"
  using cycle_guarded [of self env] check_time_guarded [of self envs] check_time_starts [of envs self]
  by simp

lemma is_time_to_lock_flag:
  "is_time_to_lock (self\<lparr>warning_active := b\<rparr>) now = is_time_to_lock self now"
  by (simp add: is_time_to_lock_def)

lemma get_network_time_flag:
  "get_network_time (self\<lparr>warning_active := b\<rparr>) net = get_network_time self net"
  by (simp add: get_network_time_def)

lemma init_at_noon:
  "is_time_to_lock init (12, 0) = ([Log INFO (InLockWindow ''12:00'' ''11:00'' ''13:00'')], Inr True)"
  by (simp add: is_time_to_lock_def init_def catch_Exception_def strftime_HM_def digit_char_simps
        strptime_HM_def regex_HM_def digit_val_def)

lemma init_at_eight: "is_time_to_lock init (8, 0) = ([], Inr False)"
  by (simp add: is_time_to_lock_def init_def catch_Exception_def strftime_HM_def digit_char_simps
        strptime_HM_def regex_HM_def digit_val_def)

lemma no_answer_init:
  "get_network_time init no_answer =
     ([Log WARNING (NtpFailed ''pool.ntp.org'' NTPException),
       Log WARNING (NtpFailed ''time.windows.com'' NTPException),
       Log WARNING (NtpFailed ''time.apple.com'' NTPException),
       Log WARNING (NtpFailed ''time.google.com'' NTPException)], Inr None)"
  by (simp add: get_network_time_def init_def no_answer_def catch_Exception_def)

lemma window_cycle_idle:
  "cycle window_cycle init =
     (init\<lparr>warning_active := True\<rparr>,
      [Log INFO (InLockWindow ''12:00'' ''11:00'' ''13:00''),
       Start (ShowCountdownWarning 1 ScheduleLock), Start TimeLockCountdown, Sleep 60],
      Continue)"
  by (simp add: cycle_def cycle_body_def window_cycle_def init_at_noon trigger_def)
     (simp add: init_def)

theorem warning_active_guards_triggers_witness:
  "warning_active (init\<lparr>warning_active := True\<rparr>) \<and>
   started (fst (snd (cycle window_cycle (init\<lparr>warning_active := True\<rparr>)))) = [] \<and>
   started (fst (snd (check_time [window_cycle, drift_cycle, stop_cycle]
      (init\<lparr>warning_active := True\<rparr>)))) = [] \<and>
   fst (check_time [window_cycle, drift_cycle, stop_cycle] (init\<lparr>warning_active := True\<rparr>)) =
     init\<lparr>warning_active := True\<rparr>"
  using warning_active_guards_triggers
          [of "init\<lparr>warning_active := True\<rparr>" window_cycle "[window_cycle, drift_cycle, stop_cycle]"]
  by simp

lemma time_diff_examples:
  "time_diff (local + 600000000) local = 10" "time_diff (local + 180000000) local = 3"
  by (simp_all add: time_diff_def total_seconds_def)

text \<open>
  C5.  In a cycle outside the lock windows that begins with the warning flag
  false, the flag is true afterwards exactly when the time source gave no time or
  a time more than 5 minutes from the local clock; when both threads start, the
  threads started are then the dialog for 5 minutes and the drift countdown, and
  none otherwise.  A trusted time 10 minutes ahead of the local clock meets the
  condition, one 3 minutes ahead does not.
\<close>

theorem drift_trigger:
  assumes "\<not> warning_active self"
    and "snd (is_time_to_lock self (now_hm env)) = Inr False"
    and "snd (get_network_time self (ntp env)) = Inr r"
  shows "(warning_active (fst (cycle env self)) \<longleftrightarrow> drift_exceeded r (local_time env)) \<and>
         (start_dialog env = None \<and> start_countdown env = None \<longrightarrow>
            started (fst (snd (cycle env self))) =
              (if drift_exceeded r (local_time env)
               then [ShowCountdownWarning 5 TimeSync, CountdownCheck] else [])) \<and>
         drift_exceeded (Some (local_time env + 600000000)) (local_time env) \<and>
         \<not> drift_exceeded (Some (local_time env + 180000000)) (local_time env)"
proof -
  obtain evs where t: "is_time_to_lock self (now_hm env) = (evs, Inr False)" "list_all is_log evs"
    using assms(2) is_time_to_lock_cases [of self "now_hm env"] by (metis snd_conv)
  obtain evs1 where g: "get_network_time self (ntp env) = (evs1, Inr r)" "list_all is_log evs1"
    using assms(3) get_network_time_cases [of self "ntp env"] by (metis snd_conv)
  obtain e5 f5 where t5: "trigger 5 TimeSync CountdownCheck env self =
      (self\<lparr>warning_active := True\<rparr>, e5, f5)"
    "start_dialog env = None \<and> start_countdown env = None \<longrightarrow>
       started e5 = [ShowCountdownWarning 5 TimeSync, CountdownCheck] \<and> f5 = Next"
    by (rule trigger_cases) blast
  have body: "fst (cycle_body env self) =
        (if drift_exceeded r (local_time env) then self\<lparr>warning_active := True\<rparr> else self)"
      "started (fst (snd (cycle_body env self))) =
        (if drift_exceeded r (local_time env) then started e5 else [])"
    using assms(1) t g t5(1) logs_only(2) [OF t(2)] logs_only(2) [OF g(2)]
    by (cases r; auto simp add: cycle_body_def drift_exceeded_def started_append Let_def)+
  show ?thesis
    using body t5(2) assms(1) time_diff_examples [of "local_time env"]
    by (auto simp add: cycle_of_body drift_exceeded_def)
qed

theorem drift_trigger_witness:
  "\<not> warning_active init \<and>
   started (fst (snd (cycle drift_cycle init))) = [ShowCountdownWarning 5 TimeSync, CountdownCheck] \<and>
   warning_active (fst (cycle drift_cycle init)) \<and>
   started (fst (snd (cycle near_cycle init))) = [] \<and>
   \<not> warning_active (fst (cycle near_cycle init))"
proof -
  have i: "\<not> warning_active init" by (simp add: init_def)
  have d: "snd (is_time_to_lock init (now_hm drift_cycle)) = Inr False"
      "snd (get_network_time init (ntp drift_cycle)) = Inr (Some 1700000000000000)"
      "drift_exceeded (Some 1700000000000000) (local_time drift_cycle)"
      "start_dialog drift_cycle = None \<and> start_countdown drift_cycle = None"
    by (simp_all add: drift_cycle_def init_at_eight third_answers_init drift_exceeded_def
          time_diff_def total_seconds_def)
  have n: "snd (is_time_to_lock init (now_hm near_cycle)) = Inr False"
      "snd (get_network_time init (ntp near_cycle)) = Inr (Some 1700000000000000)"
      "\<not> drift_exceeded (Some 1700000000000000) (local_time near_cycle)"
      "start_dialog near_cycle = None \<and> start_countdown near_cycle = None"
    by (simp_all add: near_cycle_def init_at_eight third_answers_init drift_exceeded_def
          time_diff_def total_seconds_def)
  from drift_trigger [OF i d(1,2)] drift_trigger [OF i n(1,2)] i d(3,4) n(3,4)
  show ?thesis by simp
qed

lemma cycle_raises_Exception:
  assumes "cycle env self = (s1, evs, Raised (Exception e))"
  shows "sleep_300 env = Some (Exception e)"
proof -
  obtain s0 evs0 f where b: "cycle_body env self = (s0, evs0, f)" by (cases "cycle_body env self")
  show ?thesis
    using assms b
    by (cases f)
       (auto simp add: cycle_def sleep_after_def split: base_exception.splits option.splits)
qed

lemma check_time_raises_Exception:
  "check_time envs self = (s, evs, Some (Raised (Exception e))) \<Longrightarrow>
     \<exists>env \<in> set envs. sleep_300 env = Some (Exception e)"
proof (induction envs arbitrary: self s evs)
  case Nil
  then show ?case by simp
next
  case (Cons env envs)
  obtain s1 evs1 f where c: "cycle env self = (s1, evs1, f)" by (cases "cycle env self")
  obtain s2 evs2 r where n: "check_time envs s1 = (s2, evs2, r)" by (cases "check_time envs s1")
  from Cons.prems have ns: "\<not> stop_set env" by (auto split: if_splits)
  show ?case
  proof (cases "f = Raised (Exception e)")
    case True
    with c cycle_raises_Exception show ?thesis by auto
  next
    case False
    with Cons.prems c n ns have "r = Some (Raised (Exception e))"
      by (cases f) auto
    with n Cons.IH show ?thesis by auto
  qed
qed

text \<open>
  C8.  An error of class \<open>Exception\<close> that leaves \<open>check_time\<close> is logged by
  \<open>run\<close>, which sleeps 10 seconds and calls \<open>check_time\<close> again.  Such an error
  comes from the sleep after the \<open>try\<close> block of a cycle: an error raised inside
  the block is caught in \<open>check_time\<close> itself, logged there and followed by the
  sleep of 300 seconds.
\<close>

theorem uncaught_error_backoff:
  "(check_time (cycles call) self = (self1, evs, Some (Raised (Exception e))) \<and>
    sleep_10 call = None \<longrightarrow>
      run_loop (call # calls) self =
        (fst (run_loop calls self1),
         evs @ [Log ERROR (MainLoopError e), Log ERROR Traceback, Sleep 10] @
           fst (snd (run_loop calls self1)),
         snd (snd (run_loop calls self1)))) \<and>
   (check_time (cycles call) self = (self1, evs, Some (Raised (Exception e))) \<longrightarrow>
      (\<exists>env \<in> set (cycles call). sleep_300 env = Some (Exception e))) \<and>
   (cycle_body env self = (self2, evs2, Raised (Exception e2)) \<longrightarrow>
      cycle env self =
        sleep_after env self2 (evs2 @ [Log ERROR (CheckTimeError e2), Log ERROR Traceback]))"
proof (intro conjI impI)
  assume "check_time (cycles call) self = (self1, evs, Some (Raised (Exception e))) \<and>
    sleep_10 call = None"
  then show "run_loop (call # calls) self =
        (fst (run_loop calls self1),
         evs @ [Log ERROR (MainLoopError e), Log ERROR Traceback, Sleep 10] @
           fst (snd (run_loop calls self1)),
         snd (snd (run_loop calls self1)))"
    by (simp split: prod.splits)
next
  assume "check_time (cycles call) self = (self1, evs, Some (Raised (Exception e)))"
  then show "\<exists>env \<in> set (cycles call). sleep_300 env = Some (Exception e)"
    by (rule check_time_raises_Exception)
next
  assume "cycle_body env self = (self2, evs2, Raised (Exception e2))"
  then show "cycle env self =
        sleep_after env self2 (evs2 @ [Log ERROR (CheckTimeError e2), Log ERROR Traceback])"
    by (simp add: cycle_def)
qed

lemma broken_sleep_cycle_value:
  "cycle broken_sleep_cycle init =
     (init,
      [Log WARNING (NtpFailed ''pool.ntp.org'' NTPException),
       Log WARNING (NtpFailed ''time.windows.com'' NTPException),
       Log DEBUG (NtpOk ''time.apple.com''),
       Log INFO (LocalTime 1700000000000000), Log INFO (NetworkTime 1700000000000000),
       Log INFO (TimeDiff 0), Sleep 300],
      Raised (Exception OSError))"
  by (simp add: cycle_def cycle_body_def broken_sleep_cycle_def init_at_eight third_answers_init
        time_diff_def total_seconds_def sleep_after_def)

lemma broken_sleep_check_time:
  "check_time [broken_sleep_cycle] init =
     (init,
      [Log WARNING (NtpFailed ''pool.ntp.org'' NTPException),
       Log WARNING (NtpFailed ''time.windows.com'' NTPException),
       Log DEBUG (NtpOk ''time.apple.com''),
       Log INFO (LocalTime 1700000000000000), Log INFO (NetworkTime 1700000000000000),
       Log INFO (TimeDiff 0), Sleep 300],
      Some (Raised (Exception OSError)))"
proof -
  have "\<not> stop_set broken_sleep_cycle" by (simp add: broken_sleep_cycle_def)
  then show ?thesis by (simp add: broken_sleep_cycle_value)
qed

lemma no_thread_cycle_body:
  "cycle_body no_thread_cycle init =
     (init\<lparr>warning_active := True\<rparr>,
      [Log INFO (InLockWindow ''12:00'' ''11:00'' ''13:00'')], Raised (Exception RuntimeError))"
  by (simp add: cycle_body_def no_thread_cycle_def init_at_noon trigger_def)
     (simp add: init_def)

theorem uncaught_error_backoff_witness:
  "sleep_10 broken_call = None \<and>
   snd (snd (check_time (cycles broken_call) init)) = Some (Raised (Exception OSError)) \<and>
   sleeps (fst (snd (run_loop [broken_call, stop_call] init))) = [300, 10] \<and>
   snd (snd (run_loop [broken_call, stop_call] init)) = None \<and>
   sleep_300 broken_sleep_cycle = Some (Exception OSError) \<and>
   cycle no_thread_cycle init =
     (init\<lparr>warning_active := True\<rparr>,
      [Log INFO (InLockWindow ''12:00'' ''11:00'' ''13:00''),
       Log ERROR (CheckTimeError RuntimeError), Log ERROR Traceback, Sleep 300], Next)"
proof -
  let ?evs = "[Log WARNING (NtpFailed ''pool.ntp.org'' NTPException),
       Log WARNING (NtpFailed ''time.windows.com'' NTPException),
       Log DEBUG (NtpOk ''time.apple.com''),
       Log INFO (LocalTime 1700000000000000), Log INFO (NetworkTime 1700000000000000),
       Log INFO (TimeDiff 0), Sleep 300]"
  have c: "check_time (cycles broken_call) init = (init, ?evs, Some (Raised (Exception OSError)))"
    by (simp only: broken_call_def run_env.simps broken_sleep_check_time)
  have s: "sleep_10 broken_call = None" by (simp add: broken_call_def)
  have b: "cycle_body no_thread_cycle init =
     (init\<lparr>warning_active := True\<rparr>,
      [Log INFO (InLockWindow ''12:00'' ''11:00'' ''13:00'')], Raised (Exception RuntimeError))"
    by (rule no_thread_cycle_body)
  have rest: "run_loop [stop_call] init = (init, [], None)"
    by (simp add: stop_call_def stop_cycle_def)
  note inst = uncaught_error_backoff
         [of broken_call init init ?evs OSError "[stop_call]" no_thread_cycle
            "init\<lparr>warning_active := True\<rparr>"
            "[Log INFO (InLockWindow ''12:00'' ''11:00'' ''13:00'')]" RuntimeError]
  have r: "run_loop [broken_call, stop_call] init =
        (fst (run_loop [stop_call] init),
         ?evs @ [Log ERROR (MainLoopError OSError), Log ERROR Traceback, Sleep 10] @
           fst (snd (run_loop [stop_call] init)),
         snd (snd (run_loop [stop_call] init)))"
    by (rule conjunct1 [OF inst, THEN mp, OF conjI [OF c s]])
  have r1: "sleeps (fst (snd (run_loop [broken_call, stop_call] init))) = [300, 10]"
    "snd (snd (run_loop [broken_call, stop_call] init)) = None"
    unfolding r rest by simp_all
  have y: "cycle no_thread_cycle init =
      sleep_after no_thread_cycle (init\<lparr>warning_active := True\<rparr>)
        ([Log INFO (InLockWindow ''12:00'' ''11:00'' ''13:00'')] @
         [Log ERROR (CheckTimeError RuntimeError), Log ERROR Traceback])"
    by (rule conjunct2 [OF conjunct2 [OF inst], THEN mp, OF b])
  have y1: "cycle no_thread_cycle init =
     (init\<lparr>warning_active := True\<rparr>,
      [Log INFO (InLockWindow ''12:00'' ''11:00'' ''13:00''),
       Log ERROR (CheckTimeError RuntimeError), Log ERROR Traceback, Sleep 300], Next)"
    unfolding y by (simp add: sleep_after_def no_thread_cycle_def)
  have z: "sleep_300 broken_sleep_cycle = Some (Exception OSError)"
    by (simp add: broken_sleep_cycle_def)
  have c1: "snd (snd (check_time (cycles broken_call) init)) = Some (Raised (Exception OSError))"
    unfolding c by simp
  from s c1 r1 z y1 show ?thesis by (intro conjI)
qed

text \<open>
  C9.  The warning flag after a failed lock call.  The schedule countdown ends with
  \<open>LockWorkStation\<close> raising \<open>OSError\<close>: the failure is logged, the call is not
  repeated, and the flag is still true.  The cycles that follow then start
  nothing, where after a lock call that returned the same cycles start a new
  warning.
\<close>

theorem lock_failure_keeps_warning_active:
  "time_lock_countdown False (Some OSError) (init\<lparr>warning_active := True\<rparr>) =
     (init\<lparr>warning_active := True\<rparr>,
      [Log INFO TimeLockCountdownStarted, Sleep 60, Log INFO Locking, LockWorkStation,
       Log ERROR (LockFailed OSError), Log ERROR Traceback]) \<and>
   started (fst (snd (check_time [window_cycle, drift_cycle, stop_cycle]
     (fst (time_lock_countdown False (Some OSError) (init\<lparr>warning_active := True\<rparr>)))))) = [] \<and>
   started (fst (snd (check_time [window_cycle, drift_cycle, stop_cycle]
     (fst (time_lock_countdown False None (init\<lparr>warning_active := True\<rparr>)))))) =
     [ShowCountdownWarning 1 ScheduleLock, TimeLockCountdown]"
proof -
  let ?w = "init\<lparr>warning_active := True\<rparr>"
  have f: "time_lock_countdown False (Some OSError) ?w =
     (?w,
      [Log INFO TimeLockCountdownStarted, Sleep 60, Log INFO Locking, LockWorkStation,
       Log ERROR (LockFailed OSError), Log ERROR Traceback])"
    by (simp add: time_lock_countdown_def lock_windows_def)
  have ok: "fst (time_lock_countdown False None ?w) = init"
    by (simp add: time_lock_countdown_def lock_windows_def init_def)
  have stuck: "started (fst (snd (check_time [window_cycle, drift_cycle, stop_cycle] ?w))) = []"
    using check_time_guarded [of ?w "[window_cycle, drift_cycle, stop_cycle]"] by simp
  have g: "started (fst (snd (check_time [drift_cycle, stop_cycle] ?w))) = []"
    using check_time_guarded [of ?w "[drift_cycle, stop_cycle]"] by simp
  obtain s2 evs2 r2 where n: "check_time [drift_cycle, stop_cycle] ?w = (s2, evs2, r2)"
    by (cases "check_time [drift_cycle, stop_cycle] ?w")
  have ns: "\<not> stop_set window_cycle" by (simp add: window_cycle_def)
  have "check_time [window_cycle, drift_cycle, stop_cycle] init =
      (s2, [Log INFO (InLockWindow ''12:00'' ''11:00'' ''13:00''),
            Start (ShowCountdownWarning 1 ScheduleLock), Start TimeLockCountdown, Sleep 60] @ evs2,
       r2)"
    using ns n by (simp add: window_cycle_idle)
  with g n have again:
    "started (fst (snd (check_time [window_cycle, drift_cycle, stop_cycle] init))) =
     [ShowCountdownWarning 1 ScheduleLock, TimeLockCountdown]"
    by simp
  from f ok stuck again show ?thesis by simp
qed

end
